theory Spec2Isabelle
  imports Main
begin

section \<open>Data model of the file-eviction pass\<close>

text \<open>
  The development embeds \<^verbatim>\<open>__wt_evict_file\<close> (the second document of
  \<^verbatim>\<open>src/mongo/util/stacktrace_posix.cpp\<close>). The function walks the in-memory pages
  of one btree and, depending on \<^verbatim>\<open>syncop\<close>, reconciles and evicts them or discards them.

  The \<^verbatim>\<open>syncop\<close> argument is a C \<^verbatim>\<open>int\<close>; the switch distinguishes three named values
  and a default branch, so the model has one constructor per named value and one for every
  other integer.
\<close>

datatype syncop = WT_SYNC_CLOSE | WT_SYNC_DISCARD | WT_SYNC_DISCARD_FORCE | WT_SYNC_OTHER

datatype wt_flag = WT_READ_CACHE | WT_READ_NO_EVICT | WT_EVICTING

text \<open>
  \<^verbatim>\<open>page->modify\<close> is a pointer that may be \<^verbatim>\<open>NULL\<close>; the function reads
  \<^verbatim>\<open>write_gen\<close>, \<^verbatim>\<open>rec_max_txn\<close> and the flag \<^verbatim>\<open>WT_PM_REC_EMPTY\<close> of the record it
  points to, and writes \<^verbatim>\<open>write_gen\<close>.
\<close>

record wt_page_modify =
  write_gen :: nat
  rec_max_txn :: nat
  pm_rec_empty :: bool

record wt_page =
  modify :: "wt_page_modify option"

record wt_ref =
  ref_page :: nat
  ref_root :: bool

text \<open>
  The part of the session, btree and cache that the function touches: the btree flag
  \<^verbatim>\<open>WT_BTREE_NO_EVICTION\<close>, the session flag \<^verbatim>\<open>WT_SESSION_DISCARD_FORCE\<close>, the refs and
  the pages (both addressed by number), and whatever else the called functions keep
  (\<open>ext\<close>: tree shape, transaction state, cache counters).
\<close>

record 'x wt_session =
  btree_no_eviction :: bool
  session_discard_force :: bool
  refs :: "nat \<Rightarrow> wt_ref"
  pages :: "nat \<Rightarrow> wt_page"
  ext :: 'x

text \<open>
  The functions \<^verbatim>\<open>__wt_evict_file\<close> calls are not part of the sources. They are parameters
  of the model: each takes the state and returns the new state, with its \<^verbatim>\<open>int\<close> return
  value where it has one. \<^verbatim>\<open>__wt_tree_walk\<close> also updates the cursor \<^verbatim>\<open>next_ref\<close> it is
  given by address.
\<close>

record 'x wt_env =
  wt_evict_file_exclusive_on :: "'x wt_session \<Rightarrow> int \<times> 'x wt_session"
  wt_evict_file_exclusive_off :: "'x wt_session \<Rightarrow> 'x wt_session"
  wt_txn_update_oldest :: "'x wt_session \<Rightarrow> 'x wt_session"
  wt_tree_walk :: "'x wt_session \<Rightarrow> nat option \<Rightarrow> wt_flag list \<Rightarrow> int \<times> nat option \<times> 'x wt_session"
  wt_reconcile :: "'x wt_session \<Rightarrow> nat \<Rightarrow> wt_flag list \<Rightarrow> int \<times> 'x wt_session"
  wt_evict :: "'x wt_session \<Rightarrow> nat \<Rightarrow> bool \<Rightarrow> int \<times> 'x wt_session"
  wt_cache_dirty_decr :: "'x wt_session \<Rightarrow> nat \<Rightarrow> 'x wt_session"
  wt_txn_visible_all :: "'x wt_session \<Rightarrow> nat \<Rightarrow> bool"
  wt_rec_page_clean_update :: "'x wt_session \<Rightarrow> nat \<Rightarrow> 'x wt_session"
  wt_page_release :: "'x wt_session \<Rightarrow> nat \<Rightarrow> wt_flag list \<Rightarrow> int \<times> 'x wt_session"
  wt_illegal_value :: "'x wt_session \<Rightarrow> int \<times> 'x wt_session"

text \<open>
  The calls the function makes, in the order it makes them. The list of calls is kept by
  the model beside the state, out of reach of the called functions. The call of
  \<^verbatim>\<open>__wt_rec_page_clean_update\<close> carries the value the session flag
  \<^verbatim>\<open>WT_SESSION_DISCARD_FORCE\<close> has when the call is made.
\<close>

datatype call =
  Call_exclusive_on
| Call_exclusive_off
| Call_txn_update_oldest
| Call_tree_walk "nat option"
| Call_reconcile nat "wt_flag list"
| Call_evict nat
| Call_cache_dirty_decr nat
| Call_txn_visible_all nat
| Call_rec_page_clean_update nat bool
| Call_page_release nat
| Call_illegal_value

text \<open>
  Where control goes after a step: to the \<^verbatim>\<open>err\<close> label, with the value of \<^verbatim>\<open>ret\<close> and
  of \<^verbatim>\<open>next_ref\<close>, or on to the next statement.
\<close>

datatype 'x flow =
  Goto_err int "nat option" "'x wt_session" "call list"
| Continue "nat option" "'x wt_session" "call list"

text \<open>
  \<^verbatim>\<open>EBUSY\<close> is the error number of the C library (16 on Linux). The function only
  needs it to differ from 0, so that \<^verbatim>\<open>WT_ERR(EBUSY)\<close> jumps.
\<close>

definition EBUSY :: int where
  "EBUSY = 16"

text \<open>
  Modelled from the spec: the inline helper \<^verbatim>\<open>__wt_page_is_modified\<close> is not part of the
  sources. The spec gives it as "true iff a modify record exists and represents unreconciled
  state", and the write generation as the counter that is "invalidated to zero" when the
  page is cleaned.
\<close>

definition wt_page_is_modified :: "'x wt_session \<Rightarrow> nat \<Rightarrow> bool" where
  "wt_page_is_modified s page =
     (case modify (pages s page) of None \<Rightarrow> False | Some m \<Rightarrow> write_gen m \<noteq> 0)"

text \<open>
  Modelled from the spec: the inline helper \<^verbatim>\<open>__wt_ref_is_root\<close> is not part of the
  sources. The spec gives a ref a "this is the root" marker.
\<close>

definition wt_ref_is_root :: "'x wt_session \<Rightarrow> nat \<Rightarrow> bool" where
  "wt_ref_is_root s ref = ref_root (refs s ref)"

text \<open>
  Modelled from the spec: the macro \<^verbatim>\<open>WT_TRET\<close> is not part of the sources. The spec
  gives the propagation policy as "first-error-wins": a value of \<^verbatim>\<open>ret\<close> that is already
  an error is kept, otherwise \<^verbatim>\<open>ret\<close> takes the value of the call.

  The other macros of the function are not part of the sources either, and are read the
  same way, from the spec's "once any page dispositioning step fails, the walk stops
  advancing and the error is returned": \<^verbatim>\<open>WT_DECL_RET\<close> declares \<^verbatim>\<open>ret\<close> with the
  value 0; \<^verbatim>\<open>WT_RET(a)\<close> returns the value of \<^verbatim>\<open>a\<close> at once when it is not 0;
  \<^verbatim>\<open>WT_ERR(a)\<close> assigns the value of \<^verbatim>\<open>a\<close> to \<^verbatim>\<open>ret\<close> and jumps to the label
  \<^verbatim>\<open>err\<close> when it is not 0; \<^verbatim>\<open>WT_ILLEGAL_VALUE_ERR(session)\<close> is the default label
  of the switch statement and reports the illegal value under \<^verbatim>\<open>WT_ERR\<close>. The report
  itself is one of the called functions (\<open>wt_illegal_value\<close> below).
\<close>

definition WT_TRET :: "int \<Rightarrow> int \<Rightarrow> int" where
  "WT_TRET ret r = (if ret = 0 then r else ret)"

section \<open>The function\<close>

text \<open>
  \<^verbatim>\<open>if (syncop == WT_SYNC_CLOSE && __wt_page_is_modified(page))
        WT_ERR(__wt_reconcile(session, ref, NULL, WT_EVICTING));\<close>
  The result is \<^verbatim>\<open>ret\<close> (0 when nothing is called), the state and the calls made.
\<close>

definition evict_file_reconcile ::
  "'x wt_env \<Rightarrow> syncop \<Rightarrow> nat \<Rightarrow> nat \<Rightarrow> 'x wt_session \<Rightarrow> int \<times> 'x wt_session \<times> call list" where
  "evict_file_reconcile env syncop ref page s =
     (if syncop = WT_SYNC_CLOSE \<and> wt_page_is_modified s page
      then (case wt_reconcile env s ref [WT_EVICTING] of
              (r, s') \<Rightarrow> (r, s', [Call_reconcile ref [WT_EVICTING]]))
      else (0, s, []))"

text \<open>
  \<^verbatim>\<open>if (__wt_page_is_modified(page)) {
        page->modify->write_gen = 0;
        __wt_cache_dirty_decr(session, page);
  }\<close>
\<close>

definition write_gen_reset :: "'x wt_session \<Rightarrow> nat \<Rightarrow> 'x wt_session" where
  "write_gen_reset s page =
     s\<lparr>pages := (pages s)
         (page := (pages s page)\<lparr>modify :=
            map_option (\<lambda>m. m\<lparr>write_gen := 0\<rparr>) (modify (pages s page))\<rparr>)\<rparr>"

definition evict_file_clean ::
  "'x wt_env \<Rightarrow> nat \<Rightarrow> 'x wt_session \<Rightarrow> 'x wt_session \<times> call list" where
  "evict_file_clean env page s =
     (if wt_page_is_modified s page
      then (wt_cache_dirty_decr env (write_gen_reset s page) page, [Call_cache_dirty_decr page])
      else (s, []))"

text \<open>
  The test of the second \<^verbatim>\<open>if\<close> of the discard case. \<^verbatim>\<open>&&\<close> evaluates from the left
  and stops at the first false operand, so \<^verbatim>\<open>__wt_txn_visible_all\<close> is called only in
  mode \<^verbatim>\<open>WT_SYNC_DISCARD\<close> on a page with a modify record.
\<close>

definition evict_file_too_recent ::
  "'x wt_env \<Rightarrow> syncop \<Rightarrow> nat \<Rightarrow> 'x wt_session \<Rightarrow> bool \<times> call list" where
  "evict_file_too_recent env syncop page s =
     (if syncop = WT_SYNC_DISCARD
      then (case modify (pages s page) of
              None \<Rightarrow> (False, [])
            | Some m \<Rightarrow> (\<not> wt_txn_visible_all env s (rec_max_txn m),
                         [Call_txn_visible_all (rec_max_txn m)]))
      else (False, []))"

text \<open>
  \<^verbatim>\<open>if (syncop == WT_SYNC_DISCARD_FORCE)
        F_SET(session, WT_SESSION_DISCARD_FORCE);
  __wt_rec_page_clean_update(session, ref);
  F_CLR(session, WT_SESSION_DISCARD_FORCE);\<close>
\<close>

definition evict_file_discard ::
  "'x wt_env \<Rightarrow> syncop \<Rightarrow> nat \<Rightarrow> 'x wt_session \<Rightarrow> 'x wt_session \<times> call list" where
  "evict_file_discard env syncop ref s =
     (let s1 = (if syncop = WT_SYNC_DISCARD_FORCE then s\<lparr>session_discard_force := True\<rparr> else s);
          s2 = wt_rec_page_clean_update env s1 ref
      in (s2\<lparr>session_discard_force := False\<rparr>,
          [Call_rec_page_clean_update ref (session_discard_force s1)]))"

text \<open>
  The \<^verbatim>\<open>switch (syncop)\<close> statement. \<^verbatim>\<open>WT_ILLEGAL_VALUE_ERR(session)\<close> is the default
  label: it calls \<^verbatim>\<open>__wt_illegal_value\<close> under \<^verbatim>\<open>WT_ERR\<close>.
\<close>

definition evict_file_switch ::
  "'x wt_env \<Rightarrow> syncop \<Rightarrow> nat \<Rightarrow> nat \<Rightarrow> 'x wt_session \<Rightarrow> int \<times> 'x wt_session \<times> call list" where
  "evict_file_switch env syncop ref page s =
     (case syncop of
        WT_SYNC_CLOSE \<Rightarrow>
          (if wt_ref_is_root s ref \<or>
              (case modify (pages s page) of None \<Rightarrow> True | Some m \<Rightarrow> \<not> pm_rec_empty m)
           then (case wt_evict env s ref True of (r, s') \<Rightarrow> (r, s', [Call_evict ref]))
           else (0, s, []))
      | WT_SYNC_OTHER \<Rightarrow>
          (case wt_illegal_value env s of (r, s') \<Rightarrow> (r, s', [Call_illegal_value]))
      | _ \<Rightarrow>
          (case evict_file_clean env page s of
             (s1, cs1) \<Rightarrow>
               (case evict_file_too_recent env syncop page s1 of
                  (busy, cs2) \<Rightarrow>
                    if busy then (EBUSY, s1, cs1 @ cs2)
                    else (case evict_file_discard env syncop ref s1 of
                            (s2, cs3) \<Rightarrow> (0, s2, cs1 @ cs2 @ cs3)))))"

text \<open>
  One turn of the \<^verbatim>\<open>while\<close> loop, for the ref the cursor points at. \<^verbatim>\<open>WT_ERR(a)\<close>
  assigns the value of \<^verbatim>\<open>a\<close> to \<^verbatim>\<open>ret\<close> and jumps to \<^verbatim>\<open>err\<close> when it is not 0.
  Until the walk is advanced \<^verbatim>\<open>next_ref\<close> still is the current ref.
\<close>

definition evict_file_page ::
  "'x wt_env \<Rightarrow> syncop \<Rightarrow> nat \<Rightarrow> 'x wt_session \<Rightarrow> 'x flow" where
  "evict_file_page env syncop ref s =
     (let page = ref_page (refs s ref) in
      case evict_file_reconcile env syncop ref page s of
        (r1, s1, cs1) \<Rightarrow>
          if r1 \<noteq> 0 then Goto_err r1 (Some ref) s1 cs1
          else
            (case wt_tree_walk env s1 (Some ref) [WT_READ_CACHE, WT_READ_NO_EVICT] of
               (r2, next_ref, s2) \<Rightarrow>
                 if r2 \<noteq> 0 then Goto_err r2 next_ref s2 (cs1 @ [Call_tree_walk (Some ref)])
                 else
                   (case evict_file_switch env syncop ref page s2 of
                      (r3, s3, cs3) \<Rightarrow>
                        if r3 \<noteq> 0
                        then Goto_err r3 next_ref s3 (cs1 @ Call_tree_walk (Some ref) # cs3)
                        else Continue next_ref s3 (cs1 @ Call_tree_walk (Some ref) # cs3))))"

text \<open>
  \<^verbatim>\<open>while ((ref = next_ref) != NULL) { ... }\<close>. Nothing in the function bounds the number
  of turns: it is the walk that ends the loop, so a run that never ends is \<open>None\<close>.
\<close>

partial_function (option) evict_file_walk ::
  "'x wt_env \<Rightarrow> syncop \<Rightarrow> nat option \<Rightarrow> 'x wt_session \<Rightarrow> call list \<Rightarrow> 'x flow option" where
  "evict_file_walk env syncop next_ref s cs =
     (case next_ref of
        None \<Rightarrow> Some (Continue None s cs)
      | Some ref \<Rightarrow>
          (case evict_file_page env syncop ref s of
             Goto_err r nr s' cs' \<Rightarrow> Some (Goto_err r nr s' (cs @ cs'))
           | Continue nr s' cs' \<Rightarrow> evict_file_walk env syncop nr s' (cs @ cs')))"

declare evict_file_walk.simps [code]

text \<open>
  The code at the \<^verbatim>\<open>err\<close> label, entered only by a jump:
  \<^verbatim>\<open>if (next_ref != NULL)
        WT_TRET(__wt_page_release(session, next_ref, WT_READ_NO_EVICT));\<close>
\<close>

definition evict_file_err ::
  "'x wt_env \<Rightarrow> int \<Rightarrow> nat option \<Rightarrow> 'x wt_session \<Rightarrow> int \<times> 'x wt_session \<times> call list" where
  "evict_file_err env ret next_ref s =
     (case next_ref of
        None \<Rightarrow> (ret, s, [])
      | Some nr \<Rightarrow>
          (case wt_page_release env s nr [WT_READ_NO_EVICT] of
             (r, s') \<Rightarrow> (WT_TRET ret r, s', [Call_page_release nr])))"

text \<open>
  \<^verbatim>\<open>if (eviction_enabled)
        __wt_evict_file_exclusive_off(session);
  return (ret);\<close>
\<close>

definition evict_file_return ::
  "'x wt_env \<Rightarrow> bool \<Rightarrow> int \<Rightarrow> 'x wt_session \<Rightarrow> call list \<Rightarrow> int \<times> 'x wt_session \<times> call list" where
  "evict_file_return env eviction_enabled ret s cs =
     (if eviction_enabled
      then (ret, wt_evict_file_exclusive_off env s, cs @ [Call_exclusive_off])
      else (ret, s, cs))"

text \<open>
  What follows the loop, on both ways out of it: through \<^verbatim>\<open>err\<close>, or past the
  \<^verbatim>\<open>if (0)\<close> that guards it, with \<^verbatim>\<open>ret\<close> still 0.
\<close>

definition evict_file_finish ::
  "'x wt_env \<Rightarrow> bool \<Rightarrow> 'x flow \<Rightarrow> int \<times> 'x wt_session \<times> call list" where
  "evict_file_finish env eviction_enabled fl =
     (case fl of
        Goto_err ret next_ref s cs \<Rightarrow>
          (case evict_file_err env ret next_ref s of
             (ret', s', cs') \<Rightarrow> evict_file_return env eviction_enabled ret' s' (cs @ cs'))
      | Continue next_ref s cs \<Rightarrow> evict_file_return env eviction_enabled 0 s cs)"

text \<open>
  \<^verbatim>\<open>__wt_evict_file(session, syncop)\<close>: the value returned, the state and the calls made,
  or \<open>None\<close> when the walk never ends. \<^verbatim>\<open>WT_RET(a)\<close> returns the value of \<^verbatim>\<open>a\<close> at once
  when it is not 0.
\<close>

definition wt_evict_file ::
  "'x wt_env \<Rightarrow> syncop \<Rightarrow> 'x wt_session \<Rightarrow> (int \<times> 'x wt_session \<times> call list) option" where
  "wt_evict_file env syncop s =
     (let eviction_enabled = \<not> btree_no_eviction s in
      case (if eviction_enabled
            then (case wt_evict_file_exclusive_on env s of (r, s') \<Rightarrow> (r, s', [Call_exclusive_on]))
            else (0, s, [])) of
        (r0, s0, cs0) \<Rightarrow>
          if r0 \<noteq> 0 then Some (r0, s0, cs0)
          else
            (let s1 = wt_txn_update_oldest env s0;
                 cs1 = cs0 @ [Call_txn_update_oldest]
             in case wt_tree_walk env s1 None [WT_READ_CACHE, WT_READ_NO_EVICT] of
                  (r2, next_ref, s2) \<Rightarrow>
                    if r2 \<noteq> 0
                    then Some (evict_file_finish env eviction_enabled
                                 (Goto_err r2 next_ref s2 (cs1 @ [Call_tree_walk None])))
                    else map_option (evict_file_finish env eviction_enabled)
                           (evict_file_walk env syncop next_ref s2 (cs1 @ [Call_tree_walk None]))))"

section \<open>The pages a run visits\<close>

text \<open>
  Where the loop stands after \<open>n\<close> full turns: the cursor, the state and the calls made
  so far; \<open>None\<close> when the loop has ended, or has jumped to \<^verbatim>\<open>err\<close>, before that.
\<close>

fun evict_file_turns ::
  "'x wt_env \<Rightarrow> syncop \<Rightarrow> nat \<Rightarrow> nat option \<Rightarrow> 'x wt_session \<Rightarrow> call list \<Rightarrow>
     (nat option \<times> 'x wt_session \<times> call list) option" where
  "evict_file_turns env syncop 0 next_ref s cs = Some (next_ref, s, cs)"
| "evict_file_turns env syncop (Suc n) next_ref s cs =
     (case next_ref of
        None \<Rightarrow> None
      | Some ref \<Rightarrow>
          (case evict_file_page env syncop ref s of
             Goto_err r nr s' cs' \<Rightarrow> None
           | Continue nr s' cs' \<Rightarrow> evict_file_turns env syncop n nr s' (cs @ cs')))"

text \<open>
  The page a run of the function visits after \<open>n\<close> full turns of its loop: the ref the
  loop takes up, with the state and the calls made when its turn begins. There is none
  when exclusive access could not be had, when the first call of the walk failed, or when
  the loop does not get that far.
\<close>

definition evict_file_visit ::
  "'x wt_env \<Rightarrow> syncop \<Rightarrow> 'x wt_session \<Rightarrow> nat \<Rightarrow> (nat \<times> 'x wt_session \<times> call list) option" where
  "evict_file_visit env syncop s n =
     (if \<not> btree_no_eviction s \<and> fst (wt_evict_file_exclusive_on env s) \<noteq> 0 then None
      else
        (let en = \<not> btree_no_eviction s;
             s0 = (if en then snd (wt_evict_file_exclusive_on env s) else s);
             cs0 = (if en then [Call_exclusive_on] else []) @
                     [Call_txn_update_oldest, Call_tree_walk None];
             w = wt_tree_walk env (wt_txn_update_oldest env s0) None
                   [WT_READ_CACHE, WT_READ_NO_EVICT]
         in if fst w \<noteq> 0 then None
            else (case evict_file_turns env syncop n (fst (snd w)) (snd (snd w)) cs0 of
                    Some (Some ref, s', cs') \<Rightarrow> Some (ref, s', cs')
                  | _ \<Rightarrow> None)))"

section \<open>Reading the outcome of a run\<close>

text \<open>The calls made and the state reached, whichever way control goes on.\<close>

fun flow_calls :: "'x flow \<Rightarrow> call list" where
  "flow_calls (Goto_err r nr s cs) = cs"
| "flow_calls (Continue nr s cs) = cs"

fun flow_state :: "'x flow \<Rightarrow> 'x wt_session" where
  "flow_state (Goto_err r nr s cs) = s"
| "flow_state (Continue nr s cs) = s"

text \<open>
  The kinds of call: reconciliation; what the \<^verbatim>\<open>switch\<close> statement does with a page;
  the decrement of the dirty accounting; the two calls that switch ordinary eviction.
\<close>

fun is_reconcile :: "call \<Rightarrow> bool" where
  "is_reconcile (Call_reconcile r fl) = True"
| "is_reconcile _ = False"

fun is_disposition :: "call \<Rightarrow> bool" where
  "is_disposition (Call_evict r) = True"
| "is_disposition (Call_cache_dirty_decr p) = True"
| "is_disposition (Call_txn_visible_all t) = True"
| "is_disposition (Call_rec_page_clean_update r b) = True"
| "is_disposition Call_illegal_value = True"
| "is_disposition _ = False"

fun is_dirty_decr :: "call \<Rightarrow> bool" where
  "is_dirty_decr (Call_cache_dirty_decr p) = True"
| "is_dirty_decr _ = False"

fun is_exclusive :: "call \<Rightarrow> bool" where
  "is_exclusive Call_exclusive_on = True"
| "is_exclusive Call_exclusive_off = True"
| "is_exclusive _ = False"

text \<open>The call the code at \<^verbatim>\<open>err\<close> makes: the release of the ref the cursor points at.\<close>

fun flow_release :: "'x flow \<Rightarrow> call list" where
  "flow_release (Goto_err r (Some n) s cs) = [Call_page_release n]"
| "flow_release _ = []"

text \<open>
  A frame condition on the called functions: all of them but the two that switch ordinary
  eviction leave the part \<open>f\<close> of the state as it is.
\<close>

definition called_keep :: "('x wt_session \<Rightarrow> 'a) \<Rightarrow> 'x wt_env \<Rightarrow> bool" where
  "called_keep f env =
     ((\<forall>s. f (wt_txn_update_oldest env s) = f s) \<and>
      (\<forall>s c fl. f (snd (snd (wt_tree_walk env s c fl))) = f s) \<and>
      (\<forall>s r fl. f (snd (wt_reconcile env s r fl)) = f s) \<and>
      (\<forall>s r e. f (snd (wt_evict env s r e)) = f s) \<and>
      (\<forall>s p. f (wt_cache_dirty_decr env s p) = f s) \<and>
      (\<forall>s r. f (wt_rec_page_clean_update env s r) = f s) \<and>
      (\<forall>s r fl. f (snd (wt_page_release env s r fl)) = f s) \<and>
      (\<forall>s. f (snd (wt_illegal_value env s)) = f s))"

text \<open>The same condition on the two functions that switch ordinary eviction.\<close>

definition exclusive_keep :: "('x wt_session \<Rightarrow> 'a) \<Rightarrow> 'x wt_env \<Rightarrow> bool" where
  "exclusive_keep f env =
     ((\<forall>s. f (snd (wt_evict_file_exclusive_on env s)) = f s) \<and>
      (\<forall>s. f (wt_evict_file_exclusive_off env s) = f s))"

text \<open>
  What a run shows of the session flag: every call of the clean-page update is made with
  the flag at the value \<open>b\<close>.
\<close>

fun update_with_flag :: "bool \<Rightarrow> call \<Rightarrow> bool" where
  "update_with_flag b (Call_rec_page_clean_update r b') = (b' = b)"
| "update_with_flag b _ = True"

text \<open>
  The order of a run's calls. An eviction or a clean-page update of a ref is in walk order
  when the latest call of the tree walk before it was the advance of the cursor from that
  very ref: the cursor has left the page, and no later page has been taken up yet.
  \<open>last_walk\<close> is the ref of the latest call of the tree walk.
\<close>

fun in_walk_order :: "nat option \<Rightarrow> call list \<Rightarrow> bool" where
  "in_walk_order cur [] = True"
| "in_walk_order cur (Call_tree_walk c # cs) = in_walk_order c cs"
| "in_walk_order cur (Call_evict r # cs) = (cur = Some r \<and> in_walk_order cur cs)"
| "in_walk_order cur (Call_rec_page_clean_update r b # cs) =
     (cur = Some r \<and> in_walk_order cur cs)"
| "in_walk_order cur (c # cs) = in_walk_order cur cs"

fun last_walk :: "nat option \<Rightarrow> call list \<Rightarrow> nat option" where
  "last_walk cur [] = cur"
| "last_walk cur (Call_tree_walk c # cs) = last_walk c cs"
| "last_walk cur (c # cs) = last_walk cur cs"

section \<open>An example tree\<close>

text \<open>
  A small cache to run the function on. The called functions keep the refs that have a
  page in the cache, in the order of the walk (the root last), the oldest transaction id
  still needed, and the count of dirty pages. Reconciliation marks the page clean;
  eviction and the clean-page update take the ref out of the cache; a transaction id is
  visible to all when it is older than the oldest id.
\<close>

record cache_ext =
  in_cache :: "nat list"
  oldest_id :: nat
  pages_dirty :: nat

definition ex_next :: "nat list \<Rightarrow> nat option \<Rightarrow> nat option" where
  "ex_next xs c =
     (case c of
        None \<Rightarrow> (case xs of [] \<Rightarrow> None | r # _ \<Rightarrow> Some r)
      | Some r \<Rightarrow> (case dropWhile (\<lambda>r'. r' \<noteq> r) xs of _ # n # _ \<Rightarrow> Some n | _ \<Rightarrow> None))"

definition ex_out :: "cache_ext wt_session \<Rightarrow> nat \<Rightarrow> cache_ext wt_session" where
  "ex_out s ref = s\<lparr>ext := (ext s)\<lparr>in_cache := removeAll ref (in_cache (ext s))\<rparr>\<rparr>"

definition ex_dirty_decr :: "cache_ext wt_session \<Rightarrow> cache_ext wt_session" where
  "ex_dirty_decr s = s\<lparr>ext := (ext s)\<lparr>pages_dirty := pages_dirty (ext s) - 1\<rparr>\<rparr>"

definition ex_env :: "cache_ext wt_env" where
  "ex_env =
     \<lparr>wt_evict_file_exclusive_on = (\<lambda>s. (0, s\<lparr>btree_no_eviction := True\<rparr>)),
      wt_evict_file_exclusive_off = (\<lambda>s. s\<lparr>btree_no_eviction := False\<rparr>),
      wt_txn_update_oldest = (\<lambda>s. s),
      wt_tree_walk = (\<lambda>s c fl. (0, ex_next (in_cache (ext s)) c, s)),
      wt_reconcile = (\<lambda>s ref fl. (0, ex_dirty_decr (write_gen_reset s (ref_page (refs s ref))))),
      wt_evict = (\<lambda>s ref excl. (0, ex_out s ref)),
      wt_cache_dirty_decr = (\<lambda>s page. ex_dirty_decr s),
      wt_txn_visible_all = (\<lambda>s txn. txn < oldest_id (ext s)),
      wt_rec_page_clean_update = ex_out,
      wt_page_release = (\<lambda>s ref fl. (0, s)),
      wt_illegal_value = (\<lambda>s. (- 31804, s))\<rparr>"

text \<open>
  Three refs: ref 0 is the root, with page 10, never modified; ref 1 has the dirty page 11,
  whose newest update (transaction 7) is not yet visible to all; ref 2 has the clean page
  12, which reconciliation found empty.
\<close>

definition ex_pages :: "nat \<Rightarrow> wt_page" where
  "ex_pages p =
     (if p = 11 then \<lparr>modify = Some \<lparr>write_gen = 3, rec_max_txn = 7, pm_rec_empty = False\<rparr>\<rparr>
      else if p = 12 then \<lparr>modify = Some \<lparr>write_gen = 0, rec_max_txn = 2, pm_rec_empty = True\<rparr>\<rparr>
      else \<lparr>modify = None\<rparr>)"

definition ex_session :: "cache_ext wt_session" where
  "ex_session =
     \<lparr>btree_no_eviction = False,
      session_discard_force = False,
      refs = (\<lambda>r. \<lparr>ref_page = r + 10, ref_root = (r = 0)\<rparr>),
      pages = ex_pages,
      ext = \<lparr>in_cache = [1, 2, 0], oldest_id = 5, pages_dirty = 1\<rparr>\<rparr>"

text \<open>The same tree with nothing in the cache.\<close>

definition ex_empty :: "cache_ext wt_session" where
  "ex_empty = ex_session\<lparr>ext := \<lparr>in_cache = [], oldest_id = 5, pages_dirty = 0\<rparr>\<rparr>"

text \<open>The same called functions, but with a reconciliation, or an eviction, that fails.\<close>

definition ex_env_rec_fails :: "cache_ext wt_env" where
  "ex_env_rec_fails = ex_env\<lparr>wt_reconcile := (\<lambda>s ref fl. (5, s))\<rparr>"

definition ex_env_evict_fails :: "cache_ext wt_env" where
  "ex_env_evict_fails = ex_env\<lparr>wt_evict := (\<lambda>s ref excl. (16, s))\<rparr>"

text \<open>The same called functions when exclusive access cannot be had.\<close>

definition ex_env_no_exclusive :: "cache_ext wt_env" where
  "ex_env_no_exclusive =
     ex_env\<lparr>wt_evict_file_exclusive_on := (\<lambda>s. (16, s\<lparr>btree_no_eviction := True\<rparr>))\<rparr>"

text \<open>The example tree with ordinary eviction already disabled.\<close>

definition ex_session_no_eviction :: "cache_ext wt_session" where
  "ex_session_no_eviction = ex_session\<lparr>btree_no_eviction := True\<rparr>"

text \<open>The same called functions with a walk that fails: at every advance, or at once.\<close>

definition ex_env_advance_fails :: "cache_ext wt_env" where
  "ex_env_advance_fails =
     ex_env\<lparr>wt_tree_walk :=
       (\<lambda>s c fl. case c of None \<Rightarrow> (0, Some 1, s) | Some r \<Rightarrow> (7, None, s))\<rparr>"

definition ex_env_walk_fails :: "cache_ext wt_env" where
  "ex_env_walk_fails = ex_env\<lparr>wt_tree_walk := (\<lambda>s c fl. (7, None, s))\<rparr>"

section \<open>Properties\<close>

lemmas ex_defs =
  ex_env_def ex_session_def ex_empty_def ex_next_def ex_out_def ex_dirty_decr_def ex_pages_def
  ex_env_rec_fails_def ex_env_evict_fails_def ex_env_no_exclusive_def ex_session_no_eviction_def
  ex_env_advance_fails_def ex_env_walk_fails_def

subsection \<open>The steps of one turn of the loop, and the loop\<close>

lemma evict_file_reconcile_cases:
  assumes "evict_file_reconcile env syncop ref page s = (r, s', cs)"
  shows "(r = 0 \<and> s' = s \<and> cs = [] \<and> \<not> (syncop = WT_SYNC_CLOSE \<and> wt_page_is_modified s page)) \<or>
         (syncop = WT_SYNC_CLOSE \<and> wt_page_is_modified s page \<and>
          wt_reconcile env s ref [WT_EVICTING] = (r, s') \<and> cs = [Call_reconcile ref [WT_EVICTING]])"
  using assms by (auto simp: evict_file_reconcile_def split: if_splits prod.splits)

lemma evict_file_clean_calls:
  "snd (evict_file_clean env page s) =
     (if wt_page_is_modified s page then [Call_cache_dirty_decr page] else [])"
  by (simp add: evict_file_clean_def)

lemma evict_file_switch_disposition:
  assumes "evict_file_switch env syncop ref page s = (r, s', cs)"
  shows "\<forall>c\<in>set cs. is_disposition c"
  using assms
  by (auto simp: evict_file_switch_def evict_file_clean_def evict_file_too_recent_def
      evict_file_discard_def Let_def split: syncop.splits if_splits prod.splits option.splits)

lemma evict_file_page_cases:
  obtains
    (reconcile_err) r1 s1 cs1 where
      "evict_file_reconcile env syncop ref (ref_page (refs s ref)) s = (r1, s1, cs1)" "r1 \<noteq> 0"
      "evict_file_page env syncop ref s = Goto_err r1 (Some ref) s1 cs1"
  | (walk_err) s1 cs1 r2 nr s2 where
      "evict_file_reconcile env syncop ref (ref_page (refs s ref)) s = (0, s1, cs1)"
      "wt_tree_walk env s1 (Some ref) [WT_READ_CACHE, WT_READ_NO_EVICT] = (r2, nr, s2)" "r2 \<noteq> 0"
      "evict_file_page env syncop ref s = Goto_err r2 nr s2 (cs1 @ [Call_tree_walk (Some ref)])"
  | (switch_err) s1 cs1 nr s2 r3 s3 cs3 where
      "evict_file_reconcile env syncop ref (ref_page (refs s ref)) s = (0, s1, cs1)"
      "wt_tree_walk env s1 (Some ref) [WT_READ_CACHE, WT_READ_NO_EVICT] = (0, nr, s2)"
      "evict_file_switch env syncop ref (ref_page (refs s ref)) s2 = (r3, s3, cs3)" "r3 \<noteq> 0"
      "evict_file_page env syncop ref s = Goto_err r3 nr s3 (cs1 @ Call_tree_walk (Some ref) # cs3)"
  | (continue) s1 cs1 nr s2 s3 cs3 where
      "evict_file_reconcile env syncop ref (ref_page (refs s ref)) s = (0, s1, cs1)"
      "wt_tree_walk env s1 (Some ref) [WT_READ_CACHE, WT_READ_NO_EVICT] = (0, nr, s2)"
      "evict_file_switch env syncop ref (ref_page (refs s ref)) s2 = (0, s3, cs3)"
      "evict_file_page env syncop ref s = Continue nr s3 (cs1 @ Call_tree_walk (Some ref) # cs3)"
proof -
  obtain r1 s1 cs1 where a: "evict_file_reconcile env syncop ref (ref_page (refs s ref)) s = (r1, s1, cs1)"
    by (cases "evict_file_reconcile env syncop ref (ref_page (refs s ref)) s")
  obtain r2 nr s2 where b: "wt_tree_walk env s1 (Some ref) [WT_READ_CACHE, WT_READ_NO_EVICT] = (r2, nr, s2)"
    by (cases "wt_tree_walk env s1 (Some ref) [WT_READ_CACHE, WT_READ_NO_EVICT]")
  obtain r3 s3 cs3 where c: "evict_file_switch env syncop ref (ref_page (refs s ref)) s2 = (r3, s3, cs3)"
    by (cases "evict_file_switch env syncop ref (ref_page (refs s ref)) s2")
  show thesis
  proof (cases "r1 = 0")
    case False
    with a show thesis by (intro reconcile_err [of r1 s1 cs1]) (simp_all add: evict_file_page_def)
  next
    case r1: True
    show thesis
    proof (cases "r2 = 0")
      case False
      with a b r1 show thesis
        by (intro walk_err [of s1 cs1 r2 nr s2]) (simp_all add: evict_file_page_def)
    next
      case r2: True
      show thesis
      proof (cases "r3 = 0")
        case False
        with a b c r1 r2 show thesis
          by (intro switch_err [of s1 cs1 nr s2 r3 s3 cs3]) (simp_all add: evict_file_page_def)
      next
        case True
        with a b c r1 r2 show thesis
          by (intro continue [of s1 cs1 nr s2 s3 cs3]) (simp_all add: evict_file_page_def)
      qed
    qed
  qed
qed

lemmas evict_file_walk_induct = evict_file_walk.raw_induct [rotated 1, consumes 1, case_names step]

lemma evict_file_walk_calls:
  assumes "evict_file_walk env syncop nr s cs = Some fl"
      and "\<forall>ref s. \<forall>c\<in>set (flow_calls (evict_file_page env syncop ref s)). P c"
  shows "\<exists>cs'. flow_calls fl = cs @ cs' \<and> (\<forall>c\<in>set cs'. P c)"
  using assms
proof (induction env syncop nr s cs fl rule: evict_file_walk_induct)
  case (step walk env syncop next_ref s cs fl)
  show ?case
  proof (cases next_ref)
    case None
    with step(2) show ?thesis by auto
  next
    case (Some ref)
    from step(3) have page: "\<forall>c\<in>set (flow_calls (evict_file_page env syncop ref s)). P c"
      by blast
    show ?thesis
    proof (cases "evict_file_page env syncop ref s")
      case (Goto_err r nr s' cs')
      with page have "\<forall>c\<in>set cs'. P c" by simp
      with Goto_err Some step(2) show ?thesis by auto
    next
      case (Continue nr s' cs')
      with Some step(2) have "walk env syncop nr s' (cs @ cs') = Some fl" by simp
      from step(1) [OF this step(3)] obtain cs'' where
        "flow_calls fl = (cs @ cs') @ cs''" "\<forall>c\<in>set cs''. P c" by blast
      moreover from Continue page have "\<forall>c\<in>set cs'. P c" by simp
      ultimately show ?thesis by auto
    qed
  qed
qed

lemma evict_file_walk_state:
  assumes "evict_file_walk env syncop nr s cs = Some fl"
      and "\<forall>ref s. I s \<longrightarrow> I (flow_state (evict_file_page env syncop ref s))"
      and "I s"
  shows "I (flow_state fl)"
  using assms
proof (induction env syncop nr s cs fl rule: evict_file_walk_induct)
  case (step walk env syncop next_ref s cs fl)
  show ?case
  proof (cases next_ref)
    case None
    with step(2,4) show ?thesis by auto
  next
    case (Some ref)
    from step(3,4) have page: "I (flow_state (evict_file_page env syncop ref s))"
      by blast
    show ?thesis
    proof (cases "evict_file_page env syncop ref s")
      case (Goto_err r nr s' cs')
      with page Some step(2) show ?thesis by auto
    next
      case (Continue nr s' cs')
      with Some step(2) have "walk env syncop nr s' (cs @ cs') = Some fl" by simp
      moreover from Continue page have "I s'" by simp
      ultimately show ?thesis using step(1) step(3) by blast
    qed
  qed
qed

lemma evict_file_page_err_nonzero:
  "evict_file_page env syncop ref s = Goto_err r nr s' cs' \<Longrightarrow> r \<noteq> 0"
  by (cases rule: evict_file_page_cases [of env syncop ref s]) auto

lemma evict_file_walk_err_nonzero:
  assumes "evict_file_walk env syncop nr s cs = Some fl" and "fl = Goto_err r nr' s' cs'"
  shows "r \<noteq> 0"
  using assms
proof (induction env syncop nr s cs fl rule: evict_file_walk_induct)
  case (step walk env syncop next_ref s cs fl)
  show ?case
  proof (cases next_ref)
    case None
    with step(2,3) show ?thesis by auto
  next
    case (Some ref)
    show ?thesis
    proof (cases "evict_file_page env syncop ref s")
      case (Goto_err r1 nr1 s1 cs1)
      with Some step(2,3) evict_file_page_err_nonzero [OF Goto_err] show ?thesis by auto
    next
      case (Continue nr s1 cs1)
      with Some step(2) have "walk env syncop nr s1 (cs @ cs1) = Some fl" by simp
      from step(1) [OF this step(3)] show ?thesis .
    qed
  qed
qed

subsection \<open>A walk that yields no page\<close>

text \<open>
  C9. If the first call of the tree walk returns no page, the function returns 0 whatever
  the mode is. It calls nothing but the refresh of the oldest transaction id (once) and
  that one walk, between the two calls that switch ordinary eviction off and on again when
  eviction was enabled at entry: no reconciliation, no eviction, no discard. Here \<open>s0\<close>
  is the state after exclusive access has been taken, and \<open>s2\<close> the state the walk leaves.
\<close>

theorem initial_walk_empty:
  assumes "s0 = (if btree_no_eviction s then s else snd (wt_evict_file_exclusive_on env s))"
      and "\<not> btree_no_eviction s \<Longrightarrow> fst (wt_evict_file_exclusive_on env s) = 0"
      and "wt_tree_walk env (wt_txn_update_oldest env s0) None [WT_READ_CACHE, WT_READ_NO_EVICT]
             = (0, None, s2)"
  shows "wt_evict_file env syncop s =
           Some (if btree_no_eviction s
                 then (0, s2, [Call_txn_update_oldest, Call_tree_walk None])
                 else (0, wt_evict_file_exclusive_off env s2,
                       [Call_exclusive_on, Call_txn_update_oldest, Call_tree_walk None,
                        Call_exclusive_off]))"
proof (cases "btree_no_eviction s")
  case True
  with assms show ?thesis
    by (simp add: wt_evict_file_def evict_file_walk.simps evict_file_finish_def
        evict_file_return_def)
next
  case False
  obtain r s' where on: "wt_evict_file_exclusive_on env s = (r, s')"
    by (cases "wt_evict_file_exclusive_on env s")
  with assms False have "r = 0" "s0 = s'" by simp_all
  with assms on False show ?thesis
    by (simp add: wt_evict_file_def evict_file_walk.simps evict_file_finish_def
        evict_file_return_def)
qed

theorem initial_walk_empty_witness:
  "map_option (\<lambda>(r, s, cs). (r, cs)) (wt_evict_file ex_env WT_SYNC_DISCARD ex_empty) =
     Some (0, [Call_exclusive_on, Call_txn_update_oldest, Call_tree_walk None, Call_exclusive_off])"
  using initial_walk_empty [of "ex_empty\<lparr>btree_no_eviction := True\<rparr>" ex_empty ex_env
      "ex_empty\<lparr>btree_no_eviction := True\<rparr>" WT_SYNC_DISCARD]
  by (simp add: ex_defs)

subsection \<open>The steps of the switch statement\<close>

lemma EBUSY_nonzero: "EBUSY \<noteq> 0"
  by (simp add: EBUSY_def)

lemma evict_file_reconcile_discard:
  "syncop \<noteq> WT_SYNC_CLOSE \<Longrightarrow> evict_file_reconcile env syncop ref page s = (0, s, [])"
  by (simp add: evict_file_reconcile_def)

lemma evict_file_switch_close:
  "evict_file_switch env WT_SYNC_CLOSE ref page s =
     (if wt_ref_is_root s ref \<or> modify (pages s page) = None \<or>
         \<not> pm_rec_empty (the (modify (pages s page)))
      then (fst (wt_evict env s ref True), snd (wt_evict env s ref True), [Call_evict ref])
      else (0, s, []))"
  by (auto simp: evict_file_switch_def split: option.splits prod.splits)

lemma evict_file_switch_discard:
  "evict_file_switch env WT_SYNC_DISCARD ref page s =
     (case evict_file_clean env page s of
        (s1, cs1) \<Rightarrow>
          (case modify (pages s1 page) of
             None \<Rightarrow> (0, fst (evict_file_discard env WT_SYNC_DISCARD ref s1),
                      cs1 @ snd (evict_file_discard env WT_SYNC_DISCARD ref s1))
           | Some m \<Rightarrow>
               if wt_txn_visible_all env s1 (rec_max_txn m)
               then (0, fst (evict_file_discard env WT_SYNC_DISCARD ref s1),
                     cs1 @ Call_txn_visible_all (rec_max_txn m) #
                       snd (evict_file_discard env WT_SYNC_DISCARD ref s1))
               else (EBUSY, s1, cs1 @ [Call_txn_visible_all (rec_max_txn m)])))"
  by (simp add: evict_file_switch_def evict_file_too_recent_def
      split: prod.splits option.splits)

lemma evict_file_switch_force:
  "evict_file_switch env WT_SYNC_DISCARD_FORCE ref page s =
     (case evict_file_clean env page s of
        (s1, cs1) \<Rightarrow>
          (0, (wt_rec_page_clean_update env (s1\<lparr>session_discard_force := True\<rparr>) ref)
                \<lparr>session_discard_force := False\<rparr>,
           cs1 @ [Call_rec_page_clean_update ref True]))"
  by (simp add: evict_file_switch_def evict_file_too_recent_def evict_file_discard_def
      split: prod.splits)

lemma evict_file_finish_err:
  "r \<noteq> 0 \<Longrightarrow>
   evict_file_finish env en (Goto_err r nr s cs) =
     (r,
      (if en then wt_evict_file_exclusive_off env else (\<lambda>s. s))
        (case nr of None \<Rightarrow> s | Some n \<Rightarrow> snd (wt_page_release env s n [WT_READ_NO_EVICT])),
      cs @ (case nr of None \<Rightarrow> [] | Some n \<Rightarrow> [Call_page_release n]) @
        (if en then [Call_exclusive_off] else []))"
  by (simp add: evict_file_finish_def evict_file_err_def evict_file_return_def WT_TRET_def
      split: option.splits prod.splits)

lemma evict_file_page_discard_busy:
  assumes "wt_tree_walk env s (Some ref) [WT_READ_CACHE, WT_READ_NO_EVICT] = (0, nr, s2)"
      and "page = ref_page (refs s ref)"
      and "evict_file_clean env page s2 = (s3, cs3)"
      and "modify (pages s3 page) = Some m"
      and "\<not> wt_txn_visible_all env s3 (rec_max_txn m)"
  shows "evict_file_page env WT_SYNC_DISCARD ref s =
           Goto_err EBUSY nr s3
             (Call_tree_walk (Some ref) # cs3 @ [Call_txn_visible_all (rec_max_txn m)])"
  using assms
  by (simp add: evict_file_page_def evict_file_reconcile_discard evict_file_switch_discard
      EBUSY_nonzero)

lemma write_gen_reset_zero:
  "wt_page_is_modified s page \<Longrightarrow>
   map_option write_gen (modify (pages (write_gen_reset s page) page)) = Some 0"
  by (simp add: write_gen_reset_def wt_page_is_modified_def split: option.splits)

lemma write_gen_reset_clean: "\<not> wt_page_is_modified (write_gen_reset s page) page"
  by (simp add: write_gen_reset_def wt_page_is_modified_def split: option.splits)

subsection \<open>The example tree, step by step\<close>

lemma ex_walk_1:
  "wt_tree_walk ex_env ex_session (Some 1) [WT_READ_CACHE, WT_READ_NO_EVICT] =
     (0, Some 2, ex_session)"
  by (simp add: ex_defs)

lemma ex_clean_11:
  "evict_file_clean ex_env 11 ex_session =
     (ex_dirty_decr (write_gen_reset ex_session 11), [Call_cache_dirty_decr 11])"
  by (simp add: evict_file_clean_def wt_page_is_modified_def ex_defs)

lemma ex_modify_11:
  "modify (pages (ex_dirty_decr (write_gen_reset ex_session 11)) 11) =
     Some \<lparr>write_gen = 0, rec_max_txn = 7, pm_rec_empty = False\<rparr>"
  by (simp add: write_gen_reset_def ex_defs)

lemma ex_not_visible_11:
  "\<not> wt_txn_visible_all ex_env (ex_dirty_decr (write_gen_reset ex_session 11))
      (rec_max_txn \<lparr>write_gen = 0, rec_max_txn = 7, pm_rec_empty = False\<rparr>)"
  by (simp add: write_gen_reset_def ex_defs)

subsection \<open>Eviction or merge in close mode\<close>



subsection \<open>What a busy stop leaves behind\<close>

text \<open>
  C2, as stated, fails: in mode \<^verbatim>\<open>WT_SYNC_DISCARD\<close> the page is cleaned before the
  visibility test. On the example tree the function returns \<^verbatim>\<open>EBUSY\<close> at page 11,
  which was modified, and leaves it in the cache, but with its write generation reset
  from 3 to 0 and the count of dirty pages taken from 1 to 0.
\<close>

theorem discard_busy_keeps_dirty_counterexample:
  "wt_evict_file ex_env WT_SYNC_DISCARD ex_session \<noteq> None \<and>
   fst (the (wt_evict_file ex_env WT_SYNC_DISCARD ex_session)) = EBUSY \<and>
   wt_page_is_modified ex_session 11 \<and>
   \<not> wt_page_is_modified (fst (snd (the (wt_evict_file ex_env WT_SYNC_DISCARD ex_session)))) 11 \<and>
   map_option write_gen (modify (pages ex_session 11)) = Some 3 \<and>
   map_option write_gen
     (modify (pages (fst (snd (the (wt_evict_file ex_env WT_SYNC_DISCARD ex_session)))) 11)) = Some 0 \<and>
   pages_dirty (ext ex_session) = 1 \<and>
   pages_dirty (ext (fst (snd (the (wt_evict_file ex_env WT_SYNC_DISCARD ex_session))))) = 0 \<and>
   in_cache (ext (fst (snd (the (wt_evict_file ex_env WT_SYNC_DISCARD ex_session))))) = [1, 2, 0] \<and>
   snd (snd (the (wt_evict_file ex_env WT_SYNC_DISCARD ex_session))) =
     [Call_exclusive_on, Call_txn_update_oldest, Call_tree_walk None, Call_tree_walk (Some 1),
      Call_cache_dirty_decr 11, Call_txn_visible_all 7, Call_page_release 2, Call_exclusive_off]"
  by code_simp

text \<open>
  C2, amended. When a turn of the loop in mode \<^verbatim>\<open>WT_SYNC_DISCARD\<close> stops with
  \<^verbatim>\<open>EBUSY\<close> because the page's \<open>rec_max_txn\<close> is not visible to all, the page is not
  discarded: after the advance of the walk the turn calls nothing but the decrement of the
  dirty accounting (for a modified page) and the visibility test. A page that was not
  modified is left as the walk left it, with no decrement. A page that was modified has
  had its write generation reset to zero and the dirty accounting decremented once before
  the test.
\<close>

theorem discard_busy_page_cleaned:
  assumes "wt_tree_walk env s (Some ref) [WT_READ_CACHE, WT_READ_NO_EVICT] = (0, nr, s2)"
      and "page = ref_page (refs s ref)"
      and "evict_file_clean env page s2 = (s3, cs3)"
      and "modify (pages s3 page) = Some m"
      and "\<not> wt_txn_visible_all env s3 (rec_max_txn m)"
  shows "flow_state (evict_file_page env WT_SYNC_DISCARD ref s) = s3
         \<and> flow_calls (evict_file_page env WT_SYNC_DISCARD ref s) =
             Call_tree_walk (Some ref) # cs3 @ [Call_txn_visible_all (rec_max_txn m)]
         \<and> (wt_page_is_modified s2 page \<longrightarrow>
              s3 = wt_cache_dirty_decr env (write_gen_reset s2 page) page \<and>
              cs3 = [Call_cache_dirty_decr page] \<and>
              map_option write_gen (modify (pages (write_gen_reset s2 page) page)) = Some 0)
         \<and> (\<not> wt_page_is_modified s2 page \<longrightarrow> s3 = s2 \<and> cs3 = [])"
proof -
  note busy = evict_file_page_discard_busy [OF assms]
  have dirty: "s3 = wt_cache_dirty_decr env (write_gen_reset s2 page) page \<and>
      cs3 = [Call_cache_dirty_decr page]" if "wt_page_is_modified s2 page"
    using that assms(3) by (simp add: evict_file_clean_def)
  have clean: "s3 = s2 \<and> cs3 = []" if "\<not> wt_page_is_modified s2 page"
    using that assms(3) by (simp add: evict_file_clean_def)
  from busy dirty clean write_gen_reset_zero [of s2 page] show ?thesis by simp
qed

theorem discard_busy_page_cleaned_witness:
  "flow_state (evict_file_page ex_env WT_SYNC_DISCARD 1 ex_session) =
     ex_dirty_decr (write_gen_reset ex_session 11) \<and>
   flow_calls (evict_file_page ex_env WT_SYNC_DISCARD 1 ex_session) =
     [Call_tree_walk (Some 1), Call_cache_dirty_decr 11, Call_txn_visible_all 7] \<and>
   map_option write_gen (modify (pages (write_gen_reset ex_session 11) 11)) = Some 0"
proof -
  have "wt_page_is_modified ex_session 11"
    by (simp add: wt_page_is_modified_def ex_defs)
  with discard_busy_page_cleaned
    [OF ex_walk_1 _ ex_clean_11 ex_modify_11 ex_not_visible_11]
  show ?thesis by (simp add: ex_session_def)
qed

subsection \<open>The whole run\<close>

lemma wt_evict_file_unfold:
  "wt_evict_file env syncop s =
     (if \<not> btree_no_eviction s \<and> fst (wt_evict_file_exclusive_on env s) \<noteq> 0
      then Some (fst (wt_evict_file_exclusive_on env s), snd (wt_evict_file_exclusive_on env s),
                 [Call_exclusive_on])
      else
        (let en = \<not> btree_no_eviction s;
             s0 = (if en then snd (wt_evict_file_exclusive_on env s) else s);
             cs0 = (if en then [Call_exclusive_on] else []) @
                     [Call_txn_update_oldest, Call_tree_walk None];
             w = wt_tree_walk env (wt_txn_update_oldest env s0) None
                   [WT_READ_CACHE, WT_READ_NO_EVICT]
         in if fst w \<noteq> 0
            then Some (evict_file_finish env en (Goto_err (fst w) (fst (snd w)) (snd (snd w)) cs0))
            else map_option (evict_file_finish env en)
                   (evict_file_walk env syncop (fst (snd w)) (snd (snd w)) cs0)))"
  by (simp add: wt_evict_file_def Let_def split: prod.splits)

lemma wt_evict_file_pass:
  assumes run: "wt_evict_file env syncop s = Some (ret, sf, csf)"
      and acq: "btree_no_eviction s \<or> fst (wt_evict_file_exclusive_on env s) = 0"
      and en: "en = (\<not> btree_no_eviction s)"
      and s0: "s0 = (if en then snd (wt_evict_file_exclusive_on env s) else s)"
      and cs0: "cs0 = (if en then [Call_exclusive_on] else []) @
                  [Call_txn_update_oldest, Call_tree_walk None]"
      and w: "wt_tree_walk env (wt_txn_update_oldest env s0) None
                [WT_READ_CACHE, WT_READ_NO_EVICT] = (r2, nr, s2)"
  shows "\<exists>fl. evict_file_finish env en fl = (ret, sf, csf) \<and>
           (if r2 \<noteq> 0 then fl = Goto_err r2 nr s2 cs0
            else evict_file_walk env syncop nr s2 cs0 = Some fl)"
proof (cases "r2 \<noteq> 0")
  case True
  with run acq w
  have "evict_file_finish env en (Goto_err r2 nr s2 cs0) = (ret, sf, csf)"
    unfolding cs0 s0 en by (auto simp: wt_evict_file_unfold Let_def)
  with True show ?thesis by simp
next
  case False
  with run acq w obtain fl where
    "evict_file_walk env syncop nr s2 cs0 = Some fl" "evict_file_finish env en fl = (ret, sf, csf)"
    unfolding cs0 s0 en by (auto simp: wt_evict_file_unfold Let_def)
  with False show ?thesis by auto
qed

lemma evict_file_finish_calls:
  assumes "evict_file_finish env en fl = (ret, sf, csf)"
  shows "csf = flow_calls fl @ flow_release fl @ (if en then [Call_exclusive_off] else [])"
  using assms
  by (cases fl; cases "case fl of Goto_err r nr s cs \<Rightarrow> nr | Continue nr s cs \<Rightarrow> nr")
     (auto simp: evict_file_finish_def evict_file_err_def evict_file_return_def
      split: prod.splits if_splits)

lemma flow_release_cases:
  "flow_release fl = [] \<or> (\<exists>n. flow_release fl = [Call_page_release n])"
  by (cases fl rule: flow_release.cases) auto

text \<open>The calls of a whole run: the pass, between the two calls that switch eviction.\<close>

lemma wt_evict_file_calls:
  assumes run: "wt_evict_file env syncop s = Some (ret, sf, csf)"
      and page: "\<forall>ref s. \<forall>c\<in>set (flow_calls (evict_file_page env syncop ref s)). P c"
      and P: "P Call_txn_update_oldest" "\<forall>c. P (Call_tree_walk c)" "\<forall>n. P (Call_page_release n)"
  shows "(btree_no_eviction s \<and> (\<forall>c\<in>set csf. P c)) \<or>
         (\<not> btree_no_eviction s \<and> wt_evict_file_exclusive_on env s = (ret, sf) \<and> ret \<noteq> 0 \<and>
            csf = [Call_exclusive_on]) \<or>
         (\<not> btree_no_eviction s \<and> fst (wt_evict_file_exclusive_on env s) = 0 \<and>
            (\<exists>mid. csf = Call_exclusive_on # mid @ [Call_exclusive_off] \<and> (\<forall>c\<in>set mid. P c)))"
proof (cases "\<not> btree_no_eviction s \<and> fst (wt_evict_file_exclusive_on env s) \<noteq> 0")
  case True
  with run show ?thesis by (auto simp: wt_evict_file_unfold)
next
  case False
  define en where "en = (\<not> btree_no_eviction s)"
  define s0 where "s0 = (if en then snd (wt_evict_file_exclusive_on env s) else s)"
  define cs0 where "cs0 = (if en then [Call_exclusive_on] else []) @
      [Call_txn_update_oldest, Call_tree_walk None]"
  define w where "w = wt_tree_walk env (wt_txn_update_oldest env s0) None
      [WT_READ_CACHE, WT_READ_NO_EVICT]"
  have "\<exists>fl mid. evict_file_finish env en fl = (ret, sf, csf) \<and>
      flow_calls fl = cs0 @ mid \<and> (\<forall>c\<in>set mid. P c)"
  proof (cases "fst w \<noteq> 0")
    case True
    with run False
    have "evict_file_finish env en (Goto_err (fst w) (fst (snd w)) (snd (snd w)) cs0) =
        (ret, sf, csf)"
      by (simp add: wt_evict_file_unfold Let_def en_def s0_def cs0_def w_def)
    then show ?thesis by (intro exI [of _ "Goto_err (fst w) (fst (snd w)) (snd (snd w)) cs0"]
          exI [of _ "[]"]) simp
  next
    case w0: False
    with run False obtain fl where
      walk: "evict_file_walk env syncop (fst (snd w)) (snd (snd w)) cs0 = Some fl" and
      fin: "evict_file_finish env en fl = (ret, sf, csf)"
      by (auto simp: wt_evict_file_unfold Let_def en_def s0_def cs0_def w_def)
    from evict_file_walk_calls [OF walk page] fin show ?thesis by blast
  qed
  then obtain fl mid where fin: "evict_file_finish env en fl = (ret, sf, csf)"
    and mid: "flow_calls fl = cs0 @ mid" "\<forall>c\<in>set mid. P c"
    by blast
  from evict_file_finish_calls [OF fin] mid(1)
  have csf: "csf = cs0 @ mid @ flow_release fl @ (if en then [Call_exclusive_off] else [])"
    by simp
  from flow_release_cases [of fl] P(3) have rel: "\<forall>c\<in>set (flow_release fl). P c"
    by auto
  show ?thesis
  proof (cases en)
    case True
    with csf have "csf = Call_exclusive_on #
        ([Call_txn_update_oldest, Call_tree_walk None] @ mid @ flow_release fl) @
        [Call_exclusive_off]"
      by (simp add: cs0_def)
    moreover from mid(2) rel P have "\<forall>c\<in>set ([Call_txn_update_oldest, Call_tree_walk None]
        @ mid @ flow_release fl). P c" by auto
    ultimately show ?thesis using True False unfolding en_def by blast
  next
    case no: False
    with csf mid(2) rel P have "\<forall>c\<in>set csf. P c" by (auto simp: cs0_def)
    with no show ?thesis by (simp add: en_def)
  qed
qed

subsection \<open>The calls of one turn of the loop\<close>

lemma is_disposition_kinds:
  "is_disposition c \<Longrightarrow> \<not> is_reconcile c \<and> \<not> is_exclusive c \<and> (\<forall>r. c \<noteq> Call_tree_walk r)"
  by (cases c) auto

lemma evict_file_page_calls:
  "\<exists>rs ds. (flow_calls (evict_file_page env syncop ref s) = rs \<or>
            flow_calls (evict_file_page env syncop ref s) = rs @ Call_tree_walk (Some ref) # ds) \<and>
     (rs = [] \<or> rs = [Call_reconcile ref [WT_EVICTING]] \<and> syncop = WT_SYNC_CLOSE \<and>
        wt_page_is_modified s (ref_page (refs s ref))) \<and>
     (\<forall>c\<in>set ds. is_disposition c)"
proof (cases rule: evict_file_page_cases [of env syncop ref s])
  case (reconcile_err r1 s1 cs1)
  with evict_file_reconcile_cases [OF reconcile_err(1)] show ?thesis
    by (intro exI [of _ cs1] exI [of _ "[]"]) auto
next
  case (walk_err s1 cs1 r2 nr s2)
  with evict_file_reconcile_cases [OF walk_err(1)] show ?thesis
    by (intro exI [of _ cs1] exI [of _ "[]"]) auto
next
  case (switch_err s1 cs1 nr s2 r3 s3 cs3)
  with evict_file_reconcile_cases [OF switch_err(1)] evict_file_switch_disposition [OF switch_err(3)]
  show ?thesis by (intro exI [of _ cs1] exI [of _ cs3]) auto
next
  case (continue s1 cs1 nr s2 s3 cs3)
  with evict_file_reconcile_cases [OF continue(1)] evict_file_switch_disposition [OF continue(3)]
  show ?thesis by (intro exI [of _ cs1] exI [of _ cs3]) auto
qed



lemma ex_force_run: "wt_evict_file ex_env WT_SYNC_DISCARD_FORCE ex_session \<noteq> None"
  by code_simp

subsection \<open>Reconciliation\<close>



lemma evict_file_switch_other:
  "evict_file_switch env WT_SYNC_OTHER ref page s =
     (fst (wt_illegal_value env s), snd (wt_illegal_value env s), [Call_illegal_value])"
  by (simp add: evict_file_switch_def split: prod.splits)

lemma evict_file_finish_continue:
  "evict_file_finish env en (Continue nr s cs) =
     (0, (if en then wt_evict_file_exclusive_off env s else s),
      cs @ (if en then [Call_exclusive_off] else []))"
  by (simp add: evict_file_finish_def evict_file_return_def)

subsection \<open>What the called functions leave alone\<close>

lemma evict_file_page_not_exclusive:
  "\<forall>c\<in>set (flow_calls (evict_file_page env syncop ref s)). \<not> is_exclusive c"
proof -
  from evict_file_page_calls [of env syncop ref s] obtain rs ds where
    calls: "flow_calls (evict_file_page env syncop ref s) = rs \<or>
     flow_calls (evict_file_page env syncop ref s) = rs @ Call_tree_walk (Some ref) # ds"
    and rs: "rs = [] \<or> rs = [Call_reconcile ref [WT_EVICTING]] \<and> syncop = WT_SYNC_CLOSE \<and>
        wt_page_is_modified s (ref_page (refs s ref))"
    and ds: "\<forall>c\<in>set ds. is_disposition c" by blast
  from ds have "\<forall>c\<in>set ds. \<not> is_exclusive c"
    using is_disposition_kinds by blast
  moreover from rs have "\<forall>c\<in>set rs. \<not> is_exclusive c" by auto
  ultimately show ?thesis using calls by auto
qed

lemma called_keep_walk:
  "called_keep f env \<Longrightarrow> wt_tree_walk env s c fl = (r, nr, s') \<Longrightarrow> f s' = f s"
  unfolding called_keep_def by (metis snd_conv)

lemma called_keep_reconcile:
  "called_keep f env \<Longrightarrow> wt_reconcile env s ref fl = (r, s') \<Longrightarrow> f s' = f s"
  unfolding called_keep_def by (metis snd_conv)

lemma called_keep_evict:
  "called_keep f env \<Longrightarrow> f (snd (wt_evict env s ref e)) = f s"
  unfolding called_keep_def by blast

lemma called_keep_illegal:
  "called_keep f env \<Longrightarrow> f (snd (wt_illegal_value env s)) = f s"
  unfolding called_keep_def by blast

lemma called_keep_release:
  "called_keep f env \<Longrightarrow> f (snd (wt_page_release env s ref fl)) = f s"
  unfolding called_keep_def by blast

lemma called_keep_decr:
  "called_keep f env \<Longrightarrow> f (wt_cache_dirty_decr env s page) = f s"
  unfolding called_keep_def by blast

lemma called_keep_update:
  "called_keep f env \<Longrightarrow> f (wt_rec_page_clean_update env s ref) = f s"
  unfolding called_keep_def by blast

lemma called_keep_oldest:
  "called_keep f env \<Longrightarrow> f (wt_txn_update_oldest env s) = f s"
  unfolding called_keep_def by blast

lemma evict_file_clean_keeps:
  assumes "called_keep btree_no_eviction env"
  shows "btree_no_eviction (fst (evict_file_clean env page s)) = btree_no_eviction s"
  using called_keep_decr [OF assms]
  by (simp add: evict_file_clean_def write_gen_reset_def)

lemma evict_file_discard_keeps:
  assumes "called_keep btree_no_eviction env"
  shows "btree_no_eviction (fst (evict_file_discard env syncop ref s)) = btree_no_eviction s"
  using called_keep_update [OF assms]
  by (simp add: evict_file_discard_def Let_def)

lemma evict_file_switch_keeps:
  assumes keep: "called_keep btree_no_eviction env"
      and sw: "evict_file_switch env syncop ref page s = (r, s', cs)"
  shows "btree_no_eviction s' = btree_no_eviction s"
proof (cases syncop)
  case WT_SYNC_CLOSE
  with sw called_keep_evict [OF keep, of s ref True] show ?thesis
    by (auto simp: evict_file_switch_close split: if_splits)
next
  case WT_SYNC_OTHER
  with sw called_keep_illegal [OF keep, of s] show ?thesis
    by (auto simp: evict_file_switch_other)
next
  case WT_SYNC_DISCARD
  obtain s1 cs1 where c: "evict_file_clean env page s = (s1, cs1)"
    by (cases "evict_file_clean env page s")
  with evict_file_clean_keeps [OF keep, of page s]
  have "btree_no_eviction s1 = btree_no_eviction s" by simp
  with sw c WT_SYNC_DISCARD evict_file_discard_keeps [OF keep, of WT_SYNC_DISCARD ref s1]
  show ?thesis
    by (auto simp: evict_file_switch_discard split: option.splits if_splits)
next
  case WT_SYNC_DISCARD_FORCE
  obtain s1 cs1 where c: "evict_file_clean env page s = (s1, cs1)"
    by (cases "evict_file_clean env page s")
  with evict_file_clean_keeps [OF keep, of page s]
  have "btree_no_eviction s1 = btree_no_eviction s" by simp
  with sw c WT_SYNC_DISCARD_FORCE
    called_keep_update [OF keep, of "s1\<lparr>session_discard_force := True\<rparr>" ref]
  show ?thesis
    by (auto simp: evict_file_switch_force)
qed

lemma evict_file_page_keeps:
  assumes keep: "called_keep btree_no_eviction env"
  shows "btree_no_eviction (flow_state (evict_file_page env syncop ref s)) = btree_no_eviction s"
proof -
  have rec: "btree_no_eviction s1 = btree_no_eviction s"
    if "evict_file_reconcile env syncop ref (ref_page (refs s ref)) s = (r1, s1, cs1)"
    for r1 s1 cs1
    using evict_file_reconcile_cases [OF that] called_keep_reconcile [OF keep]
    by auto
  note walk = called_keep_walk [OF keep]
  show ?thesis
  proof (cases rule: evict_file_page_cases [of env syncop ref s])
    case (reconcile_err r1 s1 cs1)
    with rec show ?thesis by simp
  next
    case (walk_err s1 cs1 r2 nr s2)
    with rec [OF walk_err(1)] walk [OF walk_err(2)] show ?thesis by simp
  next
    case (switch_err s1 cs1 nr s2 r3 s3 cs3)
    with rec [OF switch_err(1)] walk [OF switch_err(2)]
      evict_file_switch_keeps [OF keep switch_err(3)] show ?thesis by simp
  next
    case (continue s1 cs1 nr s2 s3 cs3)
    with rec [OF continue(1)] walk [OF continue(2)]
      evict_file_switch_keeps [OF keep continue(3)] show ?thesis by simp
  qed
qed

lemma evict_file_finish_keeps:
  assumes keep: "called_keep f env"
      and fin: "evict_file_finish env False fl = (ret, sf, csf)"
  shows "f sf = f (flow_state fl)"
proof (cases fl)
  case (Continue nr s cs)
  with fin show ?thesis by (simp add: evict_file_finish_continue)
next
  case (Goto_err r nr s cs)
  show ?thesis
  proof (cases nr)
    case None
    with fin Goto_err show ?thesis
      by (simp add: evict_file_finish_def evict_file_err_def evict_file_return_def)
  next
    case (Some n)
    with fin Goto_err have "sf = snd (wt_page_release env s n [WT_READ_NO_EVICT])"
      by (simp add: evict_file_finish_def evict_file_err_def evict_file_return_def
          split: prod.splits)
    with called_keep_release [OF keep, of s n] Goto_err show ?thesis by simp
  qed
qed

lemma ex_close_run: "wt_evict_file ex_env WT_SYNC_CLOSE ex_session \<noteq> None"
  by code_simp

lemma ex_no_eviction_run: "wt_evict_file ex_env WT_SYNC_CLOSE ex_session_no_eviction \<noteq> None"
  by code_simp

lemma ex_env_keeps_no_eviction: "called_keep btree_no_eviction ex_env"
  by (simp add: called_keep_def ex_defs write_gen_reset_def)

subsection \<open>Exclusive access\<close>

text \<open>
  C7. A run that returns has one of three shapes. Eviction was disabled at entry: then
  neither \<^verbatim>\<open>__wt_evict_file_exclusive_on\<close> nor \<^verbatim>\<open>__wt_evict_file_exclusive_off\<close> is
  called. Eviction was enabled and exclusive access could not be had: then the error of
  \<^verbatim>\<open>__wt_evict_file_exclusive_on\<close> is returned at once, with the state that call left, and
  nothing else is called. Eviction was enabled and exclusive access was had: then the run
  begins with the one call and ends with the other, on success and on error, with neither
  in between. The function itself never writes the flag: when eviction was disabled at
  entry and the other called functions leave the flag alone, it is still set at return.
\<close>

theorem exclusive_only_when_enabled:
  "(wt_evict_file env syncop s = Some (ret, sf, csf) \<longrightarrow>
      (btree_no_eviction s \<and> (\<forall>c\<in>set csf. \<not> is_exclusive c)) \<or>
      (\<not> btree_no_eviction s \<and> wt_evict_file_exclusive_on env s = (ret, sf) \<and> ret \<noteq> 0 \<and>
         csf = [Call_exclusive_on]) \<or>
      (\<not> btree_no_eviction s \<and> fst (wt_evict_file_exclusive_on env s) = 0 \<and>
         (\<exists>mid. csf = Call_exclusive_on # mid @ [Call_exclusive_off] \<and>
                (\<forall>c\<in>set mid. \<not> is_exclusive c))))
   \<and> (\<not> btree_no_eviction s \<and> wt_evict_file_exclusive_on env s = (r, s1) \<and> r \<noteq> 0 \<longrightarrow>
        wt_evict_file env syncop s = Some (r, s1, [Call_exclusive_on]))
   \<and> (wt_evict_file env syncop s = Some (ret, sf, csf) \<and> btree_no_eviction s \<and>
       called_keep btree_no_eviction env \<longrightarrow>
        btree_no_eviction sf)"
proof -
  have calls: "(btree_no_eviction s \<and> (\<forall>c\<in>set csf. \<not> is_exclusive c)) \<or>
      (\<not> btree_no_eviction s \<and> wt_evict_file_exclusive_on env s = (ret, sf) \<and> ret \<noteq> 0 \<and>
         csf = [Call_exclusive_on]) \<or>
      (\<not> btree_no_eviction s \<and> fst (wt_evict_file_exclusive_on env s) = 0 \<and>
         (\<exists>mid. csf = Call_exclusive_on # mid @ [Call_exclusive_off] \<and>
                (\<forall>c\<in>set mid. \<not> is_exclusive c)))"
    if run: "wt_evict_file env syncop s = Some (ret, sf, csf)"
    by (rule wt_evict_file_calls [OF run]) (simp_all add: evict_file_page_not_exclusive)
  have fail: "wt_evict_file env syncop s = Some (r, s1, [Call_exclusive_on])"
    if "\<not> btree_no_eviction s" "wt_evict_file_exclusive_on env s = (r, s1)" "r \<noteq> 0"
    using that by (simp add: wt_evict_file_unfold)
  have frame: "btree_no_eviction sf"
    if run: "wt_evict_file env syncop s = Some (ret, sf, csf)" and off: "btree_no_eviction s"
      and keep: "called_keep btree_no_eviction env"
  proof -
    obtain w2 wn ws where w: "wt_tree_walk env (wt_txn_update_oldest env s) None
        [WT_READ_CACHE, WT_READ_NO_EVICT] = (w2, wn, ws)"
      by (rule prod_cases3)
    from called_keep_walk [OF keep w] called_keep_oldest [OF keep, of s] off
    have ws: "btree_no_eviction ws" by simp
    from off have en: "False = (\<not> btree_no_eviction s)" by simp
    from off w have w': "wt_tree_walk env (wt_txn_update_oldest env
        (if False then snd (wt_evict_file_exclusive_on env s) else s)) None
        [WT_READ_CACHE, WT_READ_NO_EVICT] = (w2, wn, ws)" by simp
    have cs0: "[Call_txn_update_oldest, Call_tree_walk None] =
        (if False then [Call_exclusive_on] else []) @ [Call_txn_update_oldest, Call_tree_walk None]"
      by simp
    from off have acq: "btree_no_eviction s \<or> fst (wt_evict_file_exclusive_on env s) = 0"
      by simp
    from wt_evict_file_pass [OF run acq en refl cs0 w'] obtain fl where
      fin: "evict_file_finish env False fl = (ret, sf, csf)" and
      fl: "if w2 \<noteq> 0 then fl = Goto_err w2 wn ws [Call_txn_update_oldest, Call_tree_walk None]
           else evict_file_walk env syncop wn ws [Call_txn_update_oldest, Call_tree_walk None]
                  = Some fl"
      by blast
    have st: "btree_no_eviction (flow_state fl)"
    proof (cases "w2 \<noteq> 0")
      case True
      with fl ws show ?thesis by simp
    next
      case False
      with fl have walk: "evict_file_walk env syncop wn ws
          [Call_txn_update_oldest, Call_tree_walk None] = Some fl" by simp
      show ?thesis
        by (rule evict_file_walk_state [where I = btree_no_eviction, OF walk _ ws])
           (simp add: evict_file_page_keeps [OF keep])
    qed
    from evict_file_finish_keeps [OF keep fin] st show ?thesis by simp
  qed
  from calls fail frame show ?thesis by blast
qed

theorem exclusive_only_when_enabled_witness:
  "(\<exists>mid. snd (snd (the (wt_evict_file ex_env WT_SYNC_CLOSE ex_session))) =
            Call_exclusive_on # mid @ [Call_exclusive_off] \<and>
          (\<forall>c\<in>set mid. \<not> is_exclusive c)) \<and>
   wt_evict_file ex_env_no_exclusive WT_SYNC_CLOSE ex_session =
     Some (16, ex_session\<lparr>btree_no_eviction := True\<rparr>, [Call_exclusive_on]) \<and>
   filter is_exclusive
     (snd (snd (the (wt_evict_file ex_env WT_SYNC_CLOSE ex_session_no_eviction)))) = [] \<and>
   btree_no_eviction (fst (snd (the (wt_evict_file ex_env WT_SYNC_CLOSE ex_session_no_eviction))))"
proof -
  from ex_close_run obtain ret sf csf where
    run: "wt_evict_file ex_env WT_SYNC_CLOSE ex_session = Some (ret, sf, csf)"
    by (cases "wt_evict_file ex_env WT_SYNC_CLOSE ex_session") auto
  from ex_no_eviction_run obtain ret' sf' csf' where
    run': "wt_evict_file ex_env WT_SYNC_CLOSE ex_session_no_eviction = Some (ret', sf', csf')"
    by (cases "wt_evict_file ex_env WT_SYNC_CLOSE ex_session_no_eviction") auto
  have en: "\<not> btree_no_eviction ex_session" "btree_no_eviction ex_session_no_eviction"
    by (simp_all add: ex_defs)
  have acq: "fst (wt_evict_file_exclusive_on ex_env ex_session) = 0"
    by (simp add: ex_defs)
  have busy: "wt_evict_file_exclusive_on ex_env_no_exclusive ex_session =
      (16, ex_session\<lparr>btree_no_eviction := True\<rparr>)"
    by (simp add: ex_defs)
  note first = exclusive_only_when_enabled
      [where env = ex_env and syncop = WT_SYNC_CLOSE and s = ex_session
        and ret = ret and sf = sf and csf = csf and r = 0 and ?s1.0 = ex_session,
        THEN conjunct1, rule_format, OF run]
  have a: "\<exists>mid. csf = Call_exclusive_on # mid @ [Call_exclusive_off] \<and>
      (\<forall>c\<in>set mid. \<not> is_exclusive c)"
  proof -
    from acq have "\<not> (wt_evict_file_exclusive_on ex_env ex_session = (ret, sf) \<and> ret \<noteq> 0)"
      by auto
    with first en(1) show ?thesis by blast
  qed
  note second = exclusive_only_when_enabled
      [where env = ex_env_no_exclusive and syncop = WT_SYNC_CLOSE and s = ex_session
        and r = 16 and ?s1.0 = "ex_session\<lparr>btree_no_eviction := True\<rparr>"
        and ret = 0 and sf = ex_session and csf = "[]",
        THEN conjunct2, THEN conjunct1, rule_format]
  have b: "wt_evict_file ex_env_no_exclusive WT_SYNC_CLOSE ex_session =
      Some (16, ex_session\<lparr>btree_no_eviction := True\<rparr>, [Call_exclusive_on])"
    by (rule second) (simp add: en(1) busy)
  note third = exclusive_only_when_enabled
      [where env = ex_env and syncop = WT_SYNC_CLOSE and s = ex_session_no_eviction
        and ret = ret' and sf = sf' and csf = csf' and r = 0 and ?s1.0 = ex_session]
  from third [THEN conjunct1, rule_format, OF run'] en(2)
  have c1: "\<forall>c\<in>set csf'. \<not> is_exclusive c" by blast
  from third [THEN conjunct2, THEN conjunct2, rule_format] run' en(2) ex_env_keeps_no_eviction
  have c2: "btree_no_eviction sf'" by blast
  from c1 c2 have c: "(\<forall>c\<in>set csf'. \<not> is_exclusive c) \<and> btree_no_eviction sf'" ..
  from a b c run run' show ?thesis by (simp add: filter_empty_conv)
qed

subsection \<open>The session flag of the forced discard\<close>

lemma evict_file_walk_inv:
  assumes "evict_file_walk env syncop nr s cs = Some fl"
      and "\<forall>ref s. I s \<longrightarrow> I (flow_state (evict_file_page env syncop ref s)) \<and>
             (\<forall>c\<in>set (flow_calls (evict_file_page env syncop ref s)). P c)"
      and "I s"
  shows "I (flow_state fl) \<and> (\<exists>cs'. flow_calls fl = cs @ cs' \<and> (\<forall>c\<in>set cs'. P c))"
  using assms
proof (induction env syncop nr s cs fl rule: evict_file_walk_induct)
  case (step walk env syncop next_ref s cs fl)
  show ?case
  proof (cases next_ref)
    case None
    with step(2,4) show ?thesis by auto
  next
    case (Some ref)
    from step(3,4) have page: "I (flow_state (evict_file_page env syncop ref s))"
      "\<forall>c\<in>set (flow_calls (evict_file_page env syncop ref s)). P c"
      by blast+
    show ?thesis
    proof (cases "evict_file_page env syncop ref s")
      case (Goto_err r nr s' cs')
      with page have "I s'" "\<forall>c\<in>set cs'. P c" by simp_all
      with Goto_err Some step(2) show ?thesis by auto
    next
      case (Continue nr s' cs')
      with page have p: "I s'" "\<forall>c\<in>set cs'. P c" by simp_all
      from Continue Some step(2) have "walk env syncop nr s' (cs @ cs') = Some fl" by simp
      from step(1) [OF this step(3) p(1)] obtain cs'' where
        "I (flow_state fl)" "flow_calls fl = (cs @ cs') @ cs''" "\<forall>c\<in>set cs''. P c" by blast
      with p(2) show ?thesis by auto
    qed
  qed
qed

lemma evict_file_discard_clears:
  "\<not> session_discard_force (fst (evict_file_discard env syncop ref s))"
  by (simp add: evict_file_discard_def Let_def)

lemma evict_file_clean_flag:
  assumes "called_keep session_discard_force env"
  shows "session_discard_force (fst (evict_file_clean env page s)) = session_discard_force s"
  using called_keep_decr [OF assms]
  by (simp add: evict_file_clean_def write_gen_reset_def)

lemma evict_file_switch_flag:
  assumes mode: "syncop = WT_SYNC_DISCARD \<or> syncop = WT_SYNC_DISCARD_FORCE"
      and keep: "called_keep session_discard_force env"
      and clear: "\<not> session_discard_force s"
      and sw: "evict_file_switch env syncop ref page s = (r, s', cs)"
  shows "\<not> session_discard_force s' \<and>
         (\<forall>c\<in>set cs. update_with_flag (syncop = WT_SYNC_DISCARD_FORCE) c)"
proof -
  obtain s1 cs1 where c: "evict_file_clean env page s = (s1, cs1)"
    by (cases "evict_file_clean env page s")
  with evict_file_clean_flag [OF keep, of page s] clear
  have s1: "\<not> session_discard_force s1" by simp
  from c have cs1: "cs1 = [] \<or> cs1 = [Call_cache_dirty_decr page]"
    by (auto simp: evict_file_clean_def split: if_splits)
  from mode show ?thesis
  proof
    assume "syncop = WT_SYNC_DISCARD"
    with sw c s1 cs1 show ?thesis
      by (auto simp: evict_file_switch_discard evict_file_discard_def Let_def
          split: option.splits if_splits)
  next
    assume "syncop = WT_SYNC_DISCARD_FORCE"
    with sw c s1 cs1 show ?thesis
      by (auto simp: evict_file_switch_force)
  qed
qed

lemma evict_file_page_flag:
  assumes mode: "syncop = WT_SYNC_DISCARD \<or> syncop = WT_SYNC_DISCARD_FORCE"
      and keep: "called_keep session_discard_force env"
      and clear: "\<not> session_discard_force s"
  shows "\<not> session_discard_force (flow_state (evict_file_page env syncop ref s)) \<and>
         (\<forall>c\<in>set (flow_calls (evict_file_page env syncop ref s)).
            update_with_flag (syncop = WT_SYNC_DISCARD_FORCE) c)"
proof -
  from mode have "syncop \<noteq> WT_SYNC_CLOSE" by auto
  note rec = evict_file_reconcile_discard [OF this, of env ref "ref_page (refs s ref)" s]
  note walk = called_keep_walk [OF keep]
  show ?thesis
  proof (cases rule: evict_file_page_cases [of env syncop ref s])
    case (reconcile_err r1 s1 cs1)
    with rec show ?thesis by simp
  next
    case (walk_err s1 cs1 r2 nr s2)
    with rec walk [OF walk_err(2)] clear show ?thesis by simp
  next
    case (switch_err s1 cs1 nr s2 r3 s3 cs3)
    with rec walk [OF switch_err(2)] clear have "\<not> session_discard_force s2" "cs1 = []"
      by simp_all
    with evict_file_switch_flag [OF mode keep this(1) switch_err(3)] switch_err(5)
    show ?thesis by simp
  next
    case (continue s1 cs1 nr s2 s3 cs3)
    with rec walk [OF continue(2)] clear have "\<not> session_discard_force s2" "cs1 = []"
      by simp_all
    with evict_file_switch_flag [OF mode keep this(1) continue(3)] continue(4)
    show ?thesis by simp
  qed
qed

lemma evict_file_finish_keeps_all:
  assumes keep: "called_keep f env" and ex: "exclusive_keep f env"
      and fin: "evict_file_finish env en fl = (ret, sf, csf)"
  shows "f sf = f (flow_state fl)"
proof -
  from ex have off: "f (wt_evict_file_exclusive_off env s) = f s" for s
    by (simp add: exclusive_keep_def)
  show ?thesis
  proof (cases fl)
    case (Continue nr s cs)
    with fin off show ?thesis by (auto simp: evict_file_finish_continue split: if_splits)
  next
    case (Goto_err r nr s cs)
    show ?thesis
    proof (cases nr)
      case None
      with fin Goto_err off show ?thesis
        by (auto simp: evict_file_finish_def evict_file_err_def evict_file_return_def
            split: if_splits)
    next
      case (Some n)
      with fin Goto_err have "sf = (if en then wt_evict_file_exclusive_off env else (\<lambda>s. s))
          (snd (wt_page_release env s n [WT_READ_NO_EVICT]))"
        by (auto simp: evict_file_finish_def evict_file_err_def evict_file_return_def
            split: prod.splits if_splits)
      with called_keep_release [OF keep, of s n] off Goto_err show ?thesis by simp
    qed
  qed
qed


lemma evict_file_switch_continue_clears:
  assumes mode: "syncop = WT_SYNC_DISCARD \<or> syncop = WT_SYNC_DISCARD_FORCE"
      and sw: "evict_file_switch env syncop ref page s = (0, s', cs)"
  shows "\<not> session_discard_force s'"
  using mode
proof
  assume "syncop = WT_SYNC_DISCARD"
  with sw show ?thesis
    by (auto simp: evict_file_switch_discard evict_file_discard_def Let_def EBUSY_def
        split: prod.splits option.splits if_splits)
next
  assume "syncop = WT_SYNC_DISCARD_FORCE"
  with sw show ?thesis
    by (auto simp: evict_file_switch_force split: prod.splits)
qed

lemma ex_env_keeps_flag:
  "called_keep session_discard_force ex_env" "exclusive_keep session_discard_force ex_env"
  by (simp_all add: called_keep_def exclusive_keep_def ex_defs write_gen_reset_def)

lemma ex_force_page_1:
  "evict_file_page ex_env WT_SYNC_DISCARD_FORCE 1 ex_session =
     Continue (Some 2)
       ((ex_out ((ex_dirty_decr (write_gen_reset ex_session 11))
           \<lparr>session_discard_force := True\<rparr>) 1)\<lparr>session_discard_force := False\<rparr>)
       [Call_tree_walk (Some 1), Call_cache_dirty_decr 11, Call_rec_page_clean_update 1 True]"
proof -
  have "wt_rec_page_clean_update ex_env = ex_out" by (simp add: ex_env_def)
  moreover have "ref_page (refs ex_session 1) = 11" by (simp add: ex_session_def)
  ultimately show ?thesis
    using ex_walk_1 ex_clean_11
    by (simp add: evict_file_page_def evict_file_reconcile_discard evict_file_switch_force)
qed

text \<open>
  C10. The clean-page update of a page is followed at once by the clearing of the session
  flag \<^verbatim>\<open>WT_SESSION_DISCARD_FORCE\<close>, in both discard modes and whatever the flag was; the
  update is called with the flag set when the mode is \<^verbatim>\<open>WT_SYNC_DISCARD_FORCE\<close> (or the
  flag was set already). So in the discard modes every turn of the loop that goes on to
  the next page hands it a state with the flag clear. For a whole run in a discard mode,
  entered with the flag clear and with called functions that leave the flag alone, the flag
  is clear at return, and every clean-page update has seen the flag set in mode
  \<^verbatim>\<open>WT_SYNC_DISCARD_FORCE\<close> and clear in mode \<^verbatim>\<open>WT_SYNC_DISCARD\<close>.
\<close>

theorem discard_force_flag_cleared:
  "\<not> session_discard_force (fst (evict_file_discard env syncop ref s))
   \<and> snd (evict_file_discard env syncop ref s) =
       [Call_rec_page_clean_update ref
          (syncop = WT_SYNC_DISCARD_FORCE \<or> session_discard_force s)]
   \<and> ((syncop = WT_SYNC_DISCARD \<or> syncop = WT_SYNC_DISCARD_FORCE) \<and>
       evict_file_page env syncop ref s = Continue nr s' cs' \<longrightarrow>
         \<not> session_discard_force s' \<and>
         evict_file_walk env syncop (Some ref) s cs = evict_file_walk env syncop nr s' (cs @ cs'))
   \<and> ((syncop = WT_SYNC_DISCARD \<or> syncop = WT_SYNC_DISCARD_FORCE) \<and>
       wt_evict_file env syncop s0 = Some (ret, sf, csf) \<and>
       \<not> session_discard_force s0 \<and>
       called_keep session_discard_force env \<and> exclusive_keep session_discard_force env \<longrightarrow>
         \<not> session_discard_force sf \<and>
         (\<forall>c\<in>set csf. update_with_flag (syncop = WT_SYNC_DISCARD_FORCE) c))"
proof -
  have call: "snd (evict_file_discard env syncop ref s) =
      [Call_rec_page_clean_update ref
         (syncop = WT_SYNC_DISCARD_FORCE \<or> session_discard_force s)]"
    by (simp add: evict_file_discard_def Let_def)
  have turn: "\<not> session_discard_force s' \<and>
      evict_file_walk env syncop (Some ref) s cs = evict_file_walk env syncop nr s' (cs @ cs')"
    if mode: "syncop = WT_SYNC_DISCARD \<or> syncop = WT_SYNC_DISCARD_FORCE"
      and page: "evict_file_page env syncop ref s = Continue nr s' cs'"
  proof -
    have "\<not> session_discard_force s'"
    proof (cases rule: evict_file_page_cases [of env syncop ref s])
      case (continue s1 cs1 nr2 s2 s3 cs3)
      with page evict_file_switch_continue_clears [OF mode continue(3)] show ?thesis by simp
    qed (use page in simp_all)
    moreover have "evict_file_walk env syncop (Some ref) s cs =
        evict_file_walk env syncop nr s' (cs @ cs')"
      by (subst evict_file_walk.simps) (simp add: page)
    ultimately show ?thesis ..
  qed
  have whole: "\<not> session_discard_force sf \<and>
      (\<forall>c\<in>set csf. update_with_flag (syncop = WT_SYNC_DISCARD_FORCE) c)"
    if mode: "syncop = WT_SYNC_DISCARD \<or> syncop = WT_SYNC_DISCARD_FORCE"
      and run: "wt_evict_file env syncop s0 = Some (ret, sf, csf)"
      and clear: "\<not> session_discard_force s0"
      and keep: "called_keep session_discard_force env"
      and ex: "exclusive_keep session_discard_force env"
  proof (cases "\<not> btree_no_eviction s0 \<and> fst (wt_evict_file_exclusive_on env s0) \<noteq> 0")
    case True
    with run have "sf = snd (wt_evict_file_exclusive_on env s0)" "csf = [Call_exclusive_on]"
      by (auto simp: wt_evict_file_unfold)
    with ex clear show ?thesis by (simp add: exclusive_keep_def)
  next
    case False
    then have acq: "btree_no_eviction s0 \<or> fst (wt_evict_file_exclusive_on env s0) = 0"
      by blast
    define en where "en = (\<not> btree_no_eviction s0)"
    define s1 where "s1 = (if en then snd (wt_evict_file_exclusive_on env s0) else s0)"
    define cs0 where "cs0 = (if en then [Call_exclusive_on] else []) @
        [Call_txn_update_oldest, Call_tree_walk None]"
    obtain w2 wn ws where w: "wt_tree_walk env (wt_txn_update_oldest env s1) None
        [WT_READ_CACHE, WT_READ_NO_EVICT] = (w2, wn, ws)"
      by (rule prod_cases3)
    from ex clear have "\<not> session_discard_force s1"
      by (simp add: s1_def exclusive_keep_def)
    with called_keep_walk [OF keep w] called_keep_oldest [OF keep, of s1]
    have ws: "\<not> session_discard_force ws" by simp
    have cs0: "\<forall>c\<in>set cs0. update_with_flag (syncop = WT_SYNC_DISCARD_FORCE) c"
      by (simp add: cs0_def)
    from wt_evict_file_pass [OF run acq en_def s1_def cs0_def w] obtain fl where
      fin: "evict_file_finish env en fl = (ret, sf, csf)" and
      fl: "if w2 \<noteq> 0 then fl = Goto_err w2 wn ws cs0
           else evict_file_walk env syncop wn ws cs0 = Some fl"
      by blast
    have inv: "\<not> session_discard_force (flow_state fl) \<and>
        (\<forall>c\<in>set (flow_calls fl). update_with_flag (syncop = WT_SYNC_DISCARD_FORCE) c)"
    proof (cases "w2 \<noteq> 0")
      case True
      with fl ws cs0 show ?thesis by simp
    next
      case False
      with fl have walk: "evict_file_walk env syncop wn ws cs0 = Some fl" by simp
      have "\<not> session_discard_force (flow_state fl) \<and>
          (\<exists>cs'. flow_calls fl = cs0 @ cs' \<and>
             (\<forall>c\<in>set cs'. update_with_flag (syncop = WT_SYNC_DISCARD_FORCE) c))"
        by (rule evict_file_walk_inv [where I = "\<lambda>s. \<not> session_discard_force s", OF walk _ ws])
           (simp add: evict_file_page_flag [OF mode keep])
      with cs0 show ?thesis by auto
    qed
    from evict_file_finish_keeps_all [OF keep ex fin] inv
    have "\<not> session_discard_force sf" by simp
    moreover from flow_release_cases [of fl]
    have "\<forall>c\<in>set (flow_release fl). update_with_flag (syncop = WT_SYNC_DISCARD_FORCE) c"
      by auto
    with evict_file_finish_calls [OF fin] inv
    have "\<forall>c\<in>set csf. update_with_flag (syncop = WT_SYNC_DISCARD_FORCE) c"
      by auto
    ultimately show ?thesis ..
  qed
  from evict_file_discard_clears [of env syncop ref s] call turn whole
  show ?thesis by blast
qed

theorem discard_force_flag_cleared_witness:
  "\<not> session_discard_force (flow_state (evict_file_page ex_env WT_SYNC_DISCARD_FORCE 1 ex_session)) \<and>
   evict_file_walk ex_env WT_SYNC_DISCARD_FORCE (Some 1) ex_session [] =
     evict_file_walk ex_env WT_SYNC_DISCARD_FORCE (Some 2)
       ((ex_out ((ex_dirty_decr (write_gen_reset ex_session 11))
           \<lparr>session_discard_force := True\<rparr>) 1)\<lparr>session_discard_force := False\<rparr>)
       [Call_tree_walk (Some 1), Call_cache_dirty_decr 11, Call_rec_page_clean_update 1 True] \<and>
   \<not> session_discard_force (fst (snd (the (wt_evict_file ex_env WT_SYNC_DISCARD_FORCE ex_session)))) \<and>
   filter (\<lambda>c. \<not> update_with_flag True c)
     (snd (snd (the (wt_evict_file ex_env WT_SYNC_DISCARD_FORCE ex_session)))) = []"
proof -
  from ex_force_run obtain ret sf csf where
    run: "wt_evict_file ex_env WT_SYNC_DISCARD_FORCE ex_session = Some (ret, sf, csf)"
    by (cases "wt_evict_file ex_env WT_SYNC_DISCARD_FORCE ex_session") auto
  have clear: "\<not> session_discard_force ex_session"
    by (simp add: ex_session_def)
  note th = discard_force_flag_cleared
      [where env = ex_env and syncop = WT_SYNC_DISCARD_FORCE and ref = 1 and s = ex_session
        and nr = "Some 2"
        and s' = "(ex_out ((ex_dirty_decr (write_gen_reset ex_session 11))
           \<lparr>session_discard_force := True\<rparr>) 1)\<lparr>session_discard_force := False\<rparr>"
        and cs' = "[Call_tree_walk (Some 1), Call_cache_dirty_decr 11,
           Call_rec_page_clean_update 1 True]"
        and cs = "[]" and ?s0.0 = ex_session and ret = ret and sf = sf and csf = csf]
  from th [THEN conjunct2, THEN conjunct2, THEN conjunct1, rule_format] ex_force_page_1
  have a: "evict_file_walk ex_env WT_SYNC_DISCARD_FORCE (Some 1) ex_session [] =
     evict_file_walk ex_env WT_SYNC_DISCARD_FORCE (Some 2)
       ((ex_out ((ex_dirty_decr (write_gen_reset ex_session 11))
           \<lparr>session_discard_force := True\<rparr>) 1)\<lparr>session_discard_force := False\<rparr>)
       ([] @ [Call_tree_walk (Some 1), Call_cache_dirty_decr 11, Call_rec_page_clean_update 1 True])"
    by blast
  from th [THEN conjunct2, THEN conjunct2, THEN conjunct2, rule_format] run clear ex_env_keeps_flag
  have b: "\<not> session_discard_force sf \<and> (\<forall>c\<in>set csf. update_with_flag True c)"
    by simp
  from a b run ex_force_page_1 show ?thesis
    by (simp add: filter_empty_conv)
qed

subsection \<open>The order of the walk and the disposition\<close>

lemma in_walk_order_append:
  "in_walk_order cur (a @ b) = (in_walk_order cur a \<and> in_walk_order (last_walk cur a) b)"
proof (induction a arbitrary: cur)
  case Nil
  show ?case by simp
next
  case (Cons c a)
  then show ?case by (cases c) auto
qed

lemma evict_file_walk_calls_inv:
  assumes "evict_file_walk env syncop nr s cs = Some fl"
      and "\<forall>cs ref s. Q cs \<longrightarrow> Q (cs @ flow_calls (evict_file_page env syncop ref s))"
      and "Q cs"
  shows "Q (flow_calls fl)"
  using assms
proof (induction env syncop nr s cs fl rule: evict_file_walk_induct)
  case (step walk env syncop next_ref s cs fl)
  show ?case
  proof (cases next_ref)
    case None
    with step(2,4) show ?thesis by auto
  next
    case (Some ref)
    from step(3,4) have page: "Q (cs @ flow_calls (evict_file_page env syncop ref s))"
      by blast
    show ?thesis
    proof (cases "evict_file_page env syncop ref s")
      case (Goto_err r nr s' cs')
      with page Some step(2) show ?thesis by auto
    next
      case (Continue nr s' cs')
      with page have "Q (cs @ cs')" by simp
      moreover from Continue Some step(2) have "walk env syncop nr s' (cs @ cs') = Some fl"
        by simp
      ultimately show ?thesis using step(1) step(3) by blast
    qed
  qed
qed

lemma evict_file_switch_in_order:
  assumes "evict_file_switch env syncop ref page s = (r, s', cs)"
  shows "in_walk_order (Some ref) cs"
  using assms
  by (auto simp: evict_file_switch_def evict_file_clean_def evict_file_too_recent_def
      evict_file_discard_def Let_def split: syncop.splits if_splits prod.splits option.splits)

lemma evict_file_page_in_order:
  "in_walk_order cur (flow_calls (evict_file_page env syncop ref s))"
proof (cases rule: evict_file_page_cases [of env syncop ref s])
  case (reconcile_err r1 s1 cs1)
  with evict_file_reconcile_cases [OF reconcile_err(1)] show ?thesis by auto
next
  case (walk_err s1 cs1 r2 nr s2)
  with evict_file_reconcile_cases [OF walk_err(1)] show ?thesis by auto
next
  case (switch_err s1 cs1 nr s2 r3 s3 cs3)
  with evict_file_reconcile_cases [OF switch_err(1)] evict_file_switch_in_order [OF switch_err(3)]
  show ?thesis by auto
next
  case (continue s1 cs1 nr s2 s3 cs3)
  with evict_file_reconcile_cases [OF continue(1)] evict_file_switch_in_order [OF continue(3)]
  show ?thesis by auto
qed

lemma wt_evict_file_in_order:
  assumes run: "wt_evict_file env syncop s = Some (ret, sf, csf)"
  shows "in_walk_order None csf"
proof (cases "\<not> btree_no_eviction s \<and> fst (wt_evict_file_exclusive_on env s) \<noteq> 0")
  case True
  with run show ?thesis by (auto simp: wt_evict_file_unfold)
next
  case False
  then have acq: "btree_no_eviction s \<or> fst (wt_evict_file_exclusive_on env s) = 0"
    by blast
  define en where "en = (\<not> btree_no_eviction s)"
  define s1 where "s1 = (if en then snd (wt_evict_file_exclusive_on env s) else s)"
  define cs0 where "cs0 = (if en then [Call_exclusive_on] else []) @
      [Call_txn_update_oldest, Call_tree_walk None]"
  obtain w2 wn ws where w: "wt_tree_walk env (wt_txn_update_oldest env s1) None
      [WT_READ_CACHE, WT_READ_NO_EVICT] = (w2, wn, ws)"
    by (rule prod_cases3)
  have cs0: "in_walk_order None cs0"
    by (simp add: cs0_def)
  from wt_evict_file_pass [OF run acq en_def s1_def cs0_def w] obtain fl where
    fin: "evict_file_finish env en fl = (ret, sf, csf)" and
    fl: "if w2 \<noteq> 0 then fl = Goto_err w2 wn ws cs0
         else evict_file_walk env syncop wn ws cs0 = Some fl"
    by blast
  have pass: "in_walk_order None (flow_calls fl)"
  proof (cases "w2 \<noteq> 0")
    case True
    with fl cs0 show ?thesis by simp
  next
    case False
    with fl have walk: "evict_file_walk env syncop wn ws cs0 = Some fl" by simp
    show ?thesis
      by (rule evict_file_walk_calls_inv [where Q = "in_walk_order None", OF walk _ cs0])
         (simp add: in_walk_order_append evict_file_page_in_order)
  qed
  from flow_release_cases [of fl]
  have "in_walk_order cur (flow_release fl @ (if en then [Call_exclusive_off] else []))" for cur
    by auto
  with evict_file_finish_calls [OF fin] pass show ?thesis
    by (simp add: in_walk_order_append)
qed

text \<open>
  C5. The calls of one turn of the loop come in this order: the reconciliation of the
  current ref, if any; then the advance of the walk from the current ref; then what the
  switch statement does with the page. A turn that goes on to the next page has threaded
  the state in that order, the switch statement working on the state the walk left, and
  the loop takes up the next ref in the state the switch statement left, with all calls of
  this turn made. Over a whole run, every eviction and every clean-page update of a ref
  comes after the advance of the walk from that ref and before any later call of the walk.
\<close>

theorem walk_advanced_before_disposition:
  "(\<exists>rs ds. (flow_calls (evict_file_page env syncop ref s) = rs \<or>
             flow_calls (evict_file_page env syncop ref s) = rs @ Call_tree_walk (Some ref) # ds) \<and>
            (\<forall>c\<in>set rs. c = Call_reconcile ref [WT_EVICTING]) \<and>
            (\<forall>c\<in>set ds. is_disposition c))
   \<and> (evict_file_page env syncop ref s = Continue nr s' cs' \<longrightarrow>
        (\<exists>s1 cs1 s2 cs3.
           evict_file_reconcile env syncop ref (ref_page (refs s ref)) s = (0, s1, cs1) \<and>
           wt_tree_walk env s1 (Some ref) [WT_READ_CACHE, WT_READ_NO_EVICT] = (0, nr, s2) \<and>
           evict_file_switch env syncop ref (ref_page (refs s ref)) s2 = (0, s', cs3) \<and>
           cs' = cs1 @ Call_tree_walk (Some ref) # cs3) \<and>
        evict_file_walk env syncop (Some ref) s cs = evict_file_walk env syncop nr s' (cs @ cs'))
   \<and> (wt_evict_file env syncop s0 = Some (ret, sf, csf) \<longrightarrow> in_walk_order None csf)"
proof -
  have shape: "\<exists>rs ds. (flow_calls (evict_file_page env syncop ref s) = rs \<or>
             flow_calls (evict_file_page env syncop ref s) = rs @ Call_tree_walk (Some ref) # ds) \<and>
            (\<forall>c\<in>set rs. c = Call_reconcile ref [WT_EVICTING]) \<and>
            (\<forall>c\<in>set ds. is_disposition c)"
  proof -
    from evict_file_page_calls [of env syncop ref s] obtain rs ds where
      calls: "flow_calls (evict_file_page env syncop ref s) = rs \<or>
        flow_calls (evict_file_page env syncop ref s) = rs @ Call_tree_walk (Some ref) # ds"
      and rs: "rs = [] \<or> rs = [Call_reconcile ref [WT_EVICTING]] \<and> syncop = WT_SYNC_CLOSE \<and>
        wt_page_is_modified s (ref_page (refs s ref))"
      and ds: "\<forall>c\<in>set ds. is_disposition c" by blast
    from rs have "\<forall>c\<in>set rs. c = Call_reconcile ref [WT_EVICTING]" by auto
    with calls ds show ?thesis by blast
  qed
  have turn: "(\<exists>s1 cs1 s2 cs3.
           evict_file_reconcile env syncop ref (ref_page (refs s ref)) s = (0, s1, cs1) \<and>
           wt_tree_walk env s1 (Some ref) [WT_READ_CACHE, WT_READ_NO_EVICT] = (0, nr, s2) \<and>
           evict_file_switch env syncop ref (ref_page (refs s ref)) s2 = (0, s', cs3) \<and>
           cs' = cs1 @ Call_tree_walk (Some ref) # cs3) \<and>
        evict_file_walk env syncop (Some ref) s cs = evict_file_walk env syncop nr s' (cs @ cs')"
    if page: "evict_file_page env syncop ref s = Continue nr s' cs'"
  proof -
    have "\<exists>s1 cs1 s2 cs3.
           evict_file_reconcile env syncop ref (ref_page (refs s ref)) s = (0, s1, cs1) \<and>
           wt_tree_walk env s1 (Some ref) [WT_READ_CACHE, WT_READ_NO_EVICT] = (0, nr, s2) \<and>
           evict_file_switch env syncop ref (ref_page (refs s ref)) s2 = (0, s', cs3) \<and>
           cs' = cs1 @ Call_tree_walk (Some ref) # cs3"
    proof (cases rule: evict_file_page_cases [of env syncop ref s])
      case (continue s1 cs1 nr2 s2 s3 cs3)
      with page show ?thesis by auto
    qed (use page in simp_all)
    moreover have "evict_file_walk env syncop (Some ref) s cs =
        evict_file_walk env syncop nr s' (cs @ cs')"
      by (subst evict_file_walk.simps) (simp add: page)
    ultimately show ?thesis ..
  qed
  from shape turn wt_evict_file_in_order [of env syncop s0 ret sf csf]
  show ?thesis by blast
qed


theorem walk_advanced_before_disposition_witness:
  "(\<exists>rs ds. (flow_calls (evict_file_page ex_env WT_SYNC_DISCARD_FORCE 1 ex_session) = rs \<or>
             flow_calls (evict_file_page ex_env WT_SYNC_DISCARD_FORCE 1 ex_session) =
               rs @ Call_tree_walk (Some 1) # ds) \<and>
            (\<forall>c\<in>set rs. c = Call_reconcile 1 [WT_EVICTING]) \<and>
            (\<forall>c\<in>set ds. is_disposition c)) \<and>
   evict_file_walk ex_env WT_SYNC_DISCARD_FORCE (Some 1) ex_session [Call_tree_walk None] =
     evict_file_walk ex_env WT_SYNC_DISCARD_FORCE (Some 2)
       ((ex_out ((ex_dirty_decr (write_gen_reset ex_session 11))
           \<lparr>session_discard_force := True\<rparr>) 1)\<lparr>session_discard_force := False\<rparr>)
       [Call_tree_walk None, Call_tree_walk (Some 1), Call_cache_dirty_decr 11,
        Call_rec_page_clean_update 1 True] \<and>
   in_walk_order None (snd (snd (the (wt_evict_file ex_env WT_SYNC_DISCARD_FORCE ex_session))))"
proof -
  from ex_force_run obtain ret sf csf where
    run: "wt_evict_file ex_env WT_SYNC_DISCARD_FORCE ex_session = Some (ret, sf, csf)"
    by (cases "wt_evict_file ex_env WT_SYNC_DISCARD_FORCE ex_session") auto
  note th = walk_advanced_before_disposition
      [where env = ex_env and syncop = WT_SYNC_DISCARD_FORCE and ref = 1 and s = ex_session
        and nr = "Some 2"
        and s' = "(ex_out ((ex_dirty_decr (write_gen_reset ex_session 11))
           \<lparr>session_discard_force := True\<rparr>) 1)\<lparr>session_discard_force := False\<rparr>"
        and cs' = "[Call_tree_walk (Some 1), Call_cache_dirty_decr 11,
           Call_rec_page_clean_update 1 True]"
        and cs = "[Call_tree_walk None]" and ?s0.0 = ex_session
        and ret = ret and sf = sf and csf = csf]
  note a = th [THEN conjunct1]
  from th [THEN conjunct2, THEN conjunct1, rule_format, OF ex_force_page_1]
  have b: "evict_file_walk ex_env WT_SYNC_DISCARD_FORCE (Some 1) ex_session [Call_tree_walk None] =
     evict_file_walk ex_env WT_SYNC_DISCARD_FORCE (Some 2)
       ((ex_out ((ex_dirty_decr (write_gen_reset ex_session 11))
           \<lparr>session_discard_force := True\<rparr>) 1)\<lparr>session_discard_force := False\<rparr>)
       ([Call_tree_walk None] @ [Call_tree_walk (Some 1), Call_cache_dirty_decr 11,
        Call_rec_page_clean_update 1 True])"
    by blast
  from th [THEN conjunct2, THEN conjunct2, rule_format, OF run]
  have c: "in_walk_order None csf" .
  from a b c run show ?thesis by simp
qed

subsection \<open>The run from a visited page on\<close>

lemma evict_file_turns_walk:
  "evict_file_turns env syncop n nr s cs = Some (nr', s', cs') \<Longrightarrow>
   evict_file_walk env syncop nr s cs = evict_file_walk env syncop nr' s' cs'"
proof (induction n arbitrary: nr s cs)
  case 0
  then show ?case by simp
next
  case (Suc n)
  from Suc.prems obtain ref where nr: "nr = Some ref"
    by (cases nr) auto
  with Suc.prems obtain nr1 s1 cs1 where
    page: "evict_file_page env syncop ref s = Continue nr1 s1 cs1" and
    rest: "evict_file_turns env syncop n nr1 s1 (cs @ cs1) = Some (nr', s', cs')"
    by (cases "evict_file_page env syncop ref s") auto
  have "evict_file_walk env syncop nr s cs = evict_file_walk env syncop nr1 s1 (cs @ cs1)"
    unfolding nr by (subst evict_file_walk.simps) (simp add: page)
  with Suc.IH [OF rest] show ?case by simp
qed

lemma wt_evict_file_visit:
  assumes "evict_file_visit env syncop s0 n = Some (ref, s, cs)"
  shows "wt_evict_file env syncop s0 =
           map_option (evict_file_finish env (\<not> btree_no_eviction s0))
             (evict_file_walk env syncop (Some ref) s cs)"
proof -
  define en where "en = (\<not> btree_no_eviction s0)"
  define s1 where "s1 = (if en then snd (wt_evict_file_exclusive_on env s0) else s0)"
  define cs0 where "cs0 = (if en then [Call_exclusive_on] else []) @
      [Call_txn_update_oldest, Call_tree_walk None]"
  define w where "w = wt_tree_walk env (wt_txn_update_oldest env s1) None
      [WT_READ_CACHE, WT_READ_NO_EVICT]"
  from assms have acq: "\<not> (\<not> btree_no_eviction s0 \<and> fst (wt_evict_file_exclusive_on env s0) \<noteq> 0)"
    by (auto simp: evict_file_visit_def split: if_splits)
  with assms have w0: "fst w = 0"
    unfolding w_def s1_def en_def
    by (auto simp: evict_file_visit_def Let_def split: if_splits)
  from assms acq w0
  have "evict_file_turns env syncop n (fst (snd w)) (snd (snd w)) cs0 = Some (Some ref, s, cs)"
    unfolding w_def s1_def en_def cs0_def
    by (auto simp: evict_file_visit_def Let_def split: if_splits option.splits)
  from evict_file_turns_walk [OF this]
  have "evict_file_walk env syncop (fst (snd w)) (snd (snd w)) cs0 =
      evict_file_walk env syncop (Some ref) s cs" .
  moreover from acq w0
  have "wt_evict_file env syncop s0 =
      map_option (evict_file_finish env en) (evict_file_walk env syncop (fst (snd w)) (snd (snd w)) cs0)"
    unfolding w_def s1_def en_def cs0_def
    by (auto simp: wt_evict_file_unfold Let_def)
  ultimately show ?thesis by (simp add: en_def)
qed

lemma wt_evict_file_visit_err:
  assumes visit: "evict_file_visit env syncop s0 n = Some (ref, s, cs)"
      and page: "evict_file_page env syncop ref s = Goto_err r nr s' cs'"
  shows "wt_evict_file env syncop s0 =
           Some (r,
             (if btree_no_eviction s0 then (\<lambda>s. s) else wt_evict_file_exclusive_off env)
               (case nr of None \<Rightarrow> s'
                | Some k \<Rightarrow> snd (wt_page_release env s' k [WT_READ_NO_EVICT])),
             cs @ cs' @ (case nr of None \<Rightarrow> [] | Some k \<Rightarrow> [Call_page_release k]) @
               (if btree_no_eviction s0 then [] else [Call_exclusive_off]))"
proof -
  have "evict_file_walk env syncop (Some ref) s cs = Some (Goto_err r nr s' (cs @ cs'))"
    by (subst evict_file_walk.simps) (simp add: page)
  with wt_evict_file_visit [OF visit] evict_file_page_err_nonzero [OF page]
  show ?thesis by (simp add: evict_file_finish_err)
qed

lemma wt_evict_file_visit_continue:
  assumes visit: "evict_file_visit env syncop s0 n = Some (ref, s, cs)"
      and page: "evict_file_page env syncop ref s = Continue nr s' cs'"
  shows "wt_evict_file env syncop s0 =
           map_option (evict_file_finish env (\<not> btree_no_eviction s0))
             (evict_file_walk env syncop nr s' (cs @ cs'))"
proof -
  have "evict_file_walk env syncop (Some ref) s cs = evict_file_walk env syncop nr s' (cs @ cs')"
    by (subst evict_file_walk.simps) (simp add: page)
  with wt_evict_file_visit [OF visit] show ?thesis by simp
qed

lemma evict_file_walk_prefix:
  assumes "evict_file_walk env syncop nr s cs = Some fl"
  shows "\<exists>rest. flow_calls fl = cs @ rest"
  using evict_file_walk_calls [OF assms, of "\<lambda>c. True"] by auto

lemma wt_evict_file_visit_calls:
  assumes visit: "evict_file_visit env syncop s0 n = Some (ref, s, cs)"
      and page: "evict_file_page env syncop ref s = Continue nr s' cs'"
      and run: "wt_evict_file env syncop s0 = Some (ret, sf, csf)"
  shows "\<exists>rest. csf = cs @ cs' @ rest"
proof -
  from wt_evict_file_visit_continue [OF visit page] run obtain fl where
    walk: "evict_file_walk env syncop nr s' (cs @ cs') = Some fl" and
    fin: "evict_file_finish env (\<not> btree_no_eviction s0) fl = (ret, sf, csf)"
    by (cases "evict_file_walk env syncop nr s' (cs @ cs')") auto
  from evict_file_walk_prefix [OF walk] evict_file_finish_calls [OF fin]
  show ?thesis by auto
qed

subsection \<open>Discard and forced discard of a page with a recent update\<close>

lemma evict_file_page_force:
  assumes "wt_tree_walk env s (Some ref) [WT_READ_CACHE, WT_READ_NO_EVICT] = (0, nr, s2)"
      and "page = ref_page (refs s ref)"
      and "evict_file_clean env page s2 = (s3, cs3)"
  shows "evict_file_page env WT_SYNC_DISCARD_FORCE ref s =
           Continue nr
             ((wt_rec_page_clean_update env (s3\<lparr>session_discard_force := True\<rparr>) ref)
                \<lparr>session_discard_force := False\<rparr>)
             (Call_tree_walk (Some ref) # cs3 @ [Call_rec_page_clean_update ref True])"
  using assms
  by (simp add: evict_file_page_def evict_file_reconcile_discard evict_file_switch_force)

lemma ex_visit_first:
  "evict_file_visit ex_env syncop ex_session 0 =
     Some (1, ex_session_no_eviction,
           [Call_exclusive_on, Call_txn_update_oldest, Call_tree_walk None])"
  by (simp add: evict_file_visit_def ex_defs)

lemma ex_no_eviction_walk_1:
  "wt_tree_walk ex_env ex_session_no_eviction (Some 1) [WT_READ_CACHE, WT_READ_NO_EVICT] =
     (0, Some 2, ex_session_no_eviction)"
  by (simp add: ex_defs)

lemma ex_no_eviction_clean_11:
  "evict_file_clean ex_env 11 ex_session_no_eviction =
     (ex_dirty_decr (write_gen_reset ex_session_no_eviction 11), [Call_cache_dirty_decr 11])"
  by (simp add: evict_file_clean_def wt_page_is_modified_def ex_defs)

lemma ex_no_eviction_modify_11:
  "modify (pages (ex_dirty_decr (write_gen_reset ex_session_no_eviction 11)) 11) =
     Some \<lparr>write_gen = 0, rec_max_txn = 7, pm_rec_empty = False\<rparr>"
  by (simp add: write_gen_reset_def ex_defs)

lemma ex_no_eviction_not_visible_11:
  "\<not> wt_txn_visible_all ex_env (ex_dirty_decr (write_gen_reset ex_session_no_eviction 11))
      (rec_max_txn \<lparr>write_gen = 0, rec_max_txn = 7, pm_rec_empty = False\<rparr>)"
  by (simp add: write_gen_reset_def ex_defs)

text \<open>
  C1, as stated, fails: the walk is advanced before the switch statement, and an error of
  that advance ends the pass first. With a walk that fails at every advance, the run on the
  example tree visits ref 1, whose page 11 has an update (transaction 7) that is not
  visible to all. In mode \<^verbatim>\<open>WT_SYNC_DISCARD\<close> the function returns the error of the walk,
  7, and not \<^verbatim>\<open>EBUSY\<close>; in mode \<^verbatim>\<open>WT_SYNC_DISCARD_FORCE\<close> it returns 7 as well and the
  page is not discarded.
\<close>

theorem discard_busy_walk_error_counterexample:
  "map_option fst (evict_file_visit ex_env_advance_fails WT_SYNC_DISCARD ex_session 0) = Some 1 \<and>
   map_option fst (evict_file_visit ex_env_advance_fails WT_SYNC_DISCARD_FORCE ex_session 0) = Some 1 \<and>
   ref_page (refs ex_session 1) = 11 \<and>
   map_option rec_max_txn (modify (pages ex_session 11)) = Some 7 \<and>
   \<not> wt_txn_visible_all ex_env_advance_fails ex_session 7 \<and>
   wt_evict_file ex_env_advance_fails WT_SYNC_DISCARD ex_session \<noteq> None \<and>
   fst (the (wt_evict_file ex_env_advance_fails WT_SYNC_DISCARD ex_session)) = 7 \<and>
   EBUSY = 16 \<and>
   wt_evict_file ex_env_advance_fails WT_SYNC_DISCARD_FORCE ex_session \<noteq> None \<and>
   fst (the (wt_evict_file ex_env_advance_fails WT_SYNC_DISCARD_FORCE ex_session)) = 7 \<and>
   snd (snd (the (wt_evict_file ex_env_advance_fails WT_SYNC_DISCARD_FORCE ex_session))) =
     [Call_exclusive_on, Call_txn_update_oldest, Call_tree_walk None, Call_tree_walk (Some 1),
      Call_exclusive_off]"
  by code_simp

text \<open>
  C1, amended. Take a page that a run visits and whose turn of the loop reaches the switch
  statement: the walk has been advanced past its ref and returned 0, leaving state \<open>s2\<close>.
  Let \<open>s3\<close> be the state after the page has been cleaned, and let the page have, in
  \<open>s3\<close>, a modify record whose \<open>rec_max_txn\<close> is not visible to all. Then in mode
  \<^verbatim>\<open>WT_SYNC_DISCARD\<close> the function returns \<^verbatim>\<open>EBUSY\<close>: after the advance of the walk it
  calls nothing but the decrement of the dirty accounting (for a modified page), the
  visibility test, the release of the cursor and the switch of ordinary eviction, so the
  page is neither evicted nor handed to the clean-page update. In mode
  \<^verbatim>\<open>WT_SYNC_DISCARD_FORCE\<close> the function makes no visibility test, calls
  \<^verbatim>\<open>__wt_rec_page_clean_update\<close> on the ref with the force flag set, and goes on with the
  next page: what it returns is what the rest of the walk returns.
\<close>

theorem discard_busy_force_discards:
  assumes "wt_tree_walk env s (Some ref) [WT_READ_CACHE, WT_READ_NO_EVICT] = (0, nr, s2)"
      and "page = ref_page (refs s ref)"
      and "evict_file_clean env page s2 = (s3, cs3)"
      and "modify (pages s3 page) = Some m"
      and "\<not> wt_txn_visible_all env s3 (rec_max_txn m)"
  shows "(evict_file_visit env WT_SYNC_DISCARD s0 n = Some (ref, s, cs) \<longrightarrow>
            wt_evict_file env WT_SYNC_DISCARD s0 =
              Some (EBUSY,
                (if btree_no_eviction s0 then (\<lambda>s. s) else wt_evict_file_exclusive_off env)
                  (case nr of None \<Rightarrow> s3
                   | Some k \<Rightarrow> snd (wt_page_release env s3 k [WT_READ_NO_EVICT])),
                cs @ Call_tree_walk (Some ref) # cs3 @ Call_txn_visible_all (rec_max_txn m) #
                  (case nr of None \<Rightarrow> [] | Some k \<Rightarrow> [Call_page_release k]) @
                  (if btree_no_eviction s0 then [] else [Call_exclusive_off])))
         \<and> (evict_file_visit env WT_SYNC_DISCARD_FORCE s0 n = Some (ref, s, cs) \<longrightarrow>
              wt_evict_file env WT_SYNC_DISCARD_FORCE s0 =
                map_option (evict_file_finish env (\<not> btree_no_eviction s0))
                  (evict_file_walk env WT_SYNC_DISCARD_FORCE nr
                     ((wt_rec_page_clean_update env (s3\<lparr>session_discard_force := True\<rparr>) ref)
                        \<lparr>session_discard_force := False\<rparr>)
                     (cs @ Call_tree_walk (Some ref) # cs3 @
                        [Call_rec_page_clean_update ref True])) \<and>
              (\<forall>ret sf csf.
                 wt_evict_file env WT_SYNC_DISCARD_FORCE s0 = Some (ret, sf, csf) \<longrightarrow>
                 (\<exists>rest. csf = cs @ Call_tree_walk (Some ref) # cs3 @
                                  Call_rec_page_clean_update ref True # rest)))
         \<and> cs3 = (if wt_page_is_modified s2 page then [Call_cache_dirty_decr page] else [])
         \<and> evict_file_page env WT_SYNC_DISCARD ref s =
             Goto_err EBUSY nr s3
               (Call_tree_walk (Some ref) # cs3 @ [Call_txn_visible_all (rec_max_txn m)])
         \<and> evict_file_page env WT_SYNC_DISCARD_FORCE ref s =
             Continue nr
               ((wt_rec_page_clean_update env (s3\<lparr>session_discard_force := True\<rparr>) ref)
                  \<lparr>session_discard_force := False\<rparr>)
               (Call_tree_walk (Some ref) # cs3 @ [Call_rec_page_clean_update ref True])"
proof -
  note busy = evict_file_page_discard_busy [OF assms]
  note force = evict_file_page_force [OF assms(1,2,3)]
  have cs3: "cs3 = (if wt_page_is_modified s2 page then [Call_cache_dirty_decr page] else [])"
    using assms(3) evict_file_clean_calls [of env page s2] by simp
  have a: "wt_evict_file env WT_SYNC_DISCARD s0 =
      Some (EBUSY,
        (if btree_no_eviction s0 then (\<lambda>s. s) else wt_evict_file_exclusive_off env)
          (case nr of None \<Rightarrow> s3
           | Some k \<Rightarrow> snd (wt_page_release env s3 k [WT_READ_NO_EVICT])),
        cs @ Call_tree_walk (Some ref) # cs3 @ Call_txn_visible_all (rec_max_txn m) #
          (case nr of None \<Rightarrow> [] | Some k \<Rightarrow> [Call_page_release k]) @
          (if btree_no_eviction s0 then [] else [Call_exclusive_off]))"
    if visit: "evict_file_visit env WT_SYNC_DISCARD s0 n = Some (ref, s, cs)"
    using wt_evict_file_visit_err [OF visit busy] by simp
  have b: "wt_evict_file env WT_SYNC_DISCARD_FORCE s0 =
        map_option (evict_file_finish env (\<not> btree_no_eviction s0))
          (evict_file_walk env WT_SYNC_DISCARD_FORCE nr
             ((wt_rec_page_clean_update env (s3\<lparr>session_discard_force := True\<rparr>) ref)
                \<lparr>session_discard_force := False\<rparr>)
             (cs @ Call_tree_walk (Some ref) # cs3 @ [Call_rec_page_clean_update ref True])) \<and>
      (\<forall>ret sf csf.
         wt_evict_file env WT_SYNC_DISCARD_FORCE s0 = Some (ret, sf, csf) \<longrightarrow>
         (\<exists>rest. csf = cs @ Call_tree_walk (Some ref) # cs3 @
                          Call_rec_page_clean_update ref True # rest))"
    if visit: "evict_file_visit env WT_SYNC_DISCARD_FORCE s0 n = Some (ref, s, cs)"
  proof -
    have "\<exists>rest. csf = cs @ Call_tree_walk (Some ref) # cs3 @
        Call_rec_page_clean_update ref True # rest"
      if "wt_evict_file env WT_SYNC_DISCARD_FORCE s0 = Some (ret, sf, csf)" for ret sf csf
      using wt_evict_file_visit_calls [OF visit force that] by simp
    with wt_evict_file_visit_continue [OF visit force] show ?thesis by simp
  qed
  from a b cs3 busy force show ?thesis by blast
qed

theorem discard_busy_force_discards_witness:
  "map_option (\<lambda>(r, s, cs). (r, cs)) (wt_evict_file ex_env WT_SYNC_DISCARD ex_session) =
     Some (EBUSY,
       [Call_exclusive_on, Call_txn_update_oldest, Call_tree_walk None, Call_tree_walk (Some 1),
        Call_cache_dirty_decr 11, Call_txn_visible_all 7, Call_page_release 2,
        Call_exclusive_off]) \<and>
   (\<exists>rest. snd (snd (the (wt_evict_file ex_env WT_SYNC_DISCARD_FORCE ex_session))) =
      [Call_exclusive_on, Call_txn_update_oldest, Call_tree_walk None, Call_tree_walk (Some 1),
       Call_cache_dirty_decr 11, Call_rec_page_clean_update 1 True] @ rest)"
proof -
  from ex_force_run obtain ret sf csf where
    run: "wt_evict_file ex_env WT_SYNC_DISCARD_FORCE ex_session = Some (ret, sf, csf)"
    by (cases "wt_evict_file ex_env WT_SYNC_DISCARD_FORCE ex_session") auto
  have page: "11 = ref_page (refs ex_session_no_eviction 1)"
    by (simp add: ex_defs)
  have en: "\<not> btree_no_eviction ex_session"
    by (simp add: ex_defs)
  note th = discard_busy_force_discards
      [OF ex_no_eviction_walk_1 page ex_no_eviction_clean_11 ex_no_eviction_modify_11
        ex_no_eviction_not_visible_11,
        where ?s0.0 = ex_session and n = 0
          and cs = "[Call_exclusive_on, Call_txn_update_oldest, Call_tree_walk None]"]
  from th [THEN conjunct1, rule_format, OF ex_visit_first] en
  have a: "map_option (\<lambda>(r, s, cs). (r, cs)) (wt_evict_file ex_env WT_SYNC_DISCARD ex_session) =
     Some (EBUSY,
       [Call_exclusive_on, Call_txn_update_oldest, Call_tree_walk None, Call_tree_walk (Some 1),
        Call_cache_dirty_decr 11, Call_txn_visible_all 7, Call_page_release 2,
        Call_exclusive_off])"
    by simp
  from th [THEN conjunct2, THEN conjunct1, rule_format, OF ex_visit_first, THEN conjunct2,
      rule_format, OF run]
  have b: "\<exists>rest. csf =
      [Call_exclusive_on, Call_txn_update_oldest, Call_tree_walk None, Call_tree_walk (Some 1),
       Call_cache_dirty_decr 11, Call_rec_page_clean_update 1 True] @ rest"
    by simp
  from a b run show ?thesis by simp
qed

subsection \<open>The way out on an error\<close>

lemma wt_evict_file_walk_err:
  assumes acq: "btree_no_eviction s0 \<or> fst (wt_evict_file_exclusive_on env s0) = 0"
      and w: "wt_tree_walk env (wt_txn_update_oldest env
                (if btree_no_eviction s0 then s0 else snd (wt_evict_file_exclusive_on env s0)))
                None [WT_READ_CACHE, WT_READ_NO_EVICT] = (r, nr, s')"
      and r: "r \<noteq> 0"
  shows "wt_evict_file env syncop s0 =
           Some (r,
             (if btree_no_eviction s0 then (\<lambda>s. s) else wt_evict_file_exclusive_off env)
               (case nr of None \<Rightarrow> s'
                | Some k \<Rightarrow> snd (wt_page_release env s' k [WT_READ_NO_EVICT])),
             (if btree_no_eviction s0 then [] else [Call_exclusive_on]) @
               [Call_txn_update_oldest, Call_tree_walk None] @
               (case nr of None \<Rightarrow> [] | Some k \<Rightarrow> [Call_page_release k]) @
               (if btree_no_eviction s0 then [] else [Call_exclusive_off]))"
  using assms
  by (cases "btree_no_eviction s0"; cases nr)
     (simp_all add: wt_evict_file_unfold Let_def evict_file_finish_err)

lemma ex_evict_fails_visit_first:
  "evict_file_visit ex_env_evict_fails syncop ex_session 0 =
     Some (1, ex_session_no_eviction,
           [Call_exclusive_on, Call_txn_update_oldest, Call_tree_walk None])"
  by (simp add: evict_file_visit_def ex_defs)

lemma ex_evict_fails_steps:
  "evict_file_reconcile ex_env_evict_fails WT_SYNC_CLOSE 1
       (ref_page (refs ex_session_no_eviction 1)) ex_session_no_eviction =
     (0, ex_dirty_decr (write_gen_reset ex_session_no_eviction 11), [Call_reconcile 1 [WT_EVICTING]])"
  "wt_tree_walk ex_env_evict_fails (ex_dirty_decr (write_gen_reset ex_session_no_eviction 11))
       (Some 1) [WT_READ_CACHE, WT_READ_NO_EVICT] =
     (0, Some 2, ex_dirty_decr (write_gen_reset ex_session_no_eviction 11))"
  "evict_file_switch ex_env_evict_fails WT_SYNC_CLOSE 1
       (ref_page (refs ex_session_no_eviction 1))
       (ex_dirty_decr (write_gen_reset ex_session_no_eviction 11)) =
     (16, ex_dirty_decr (write_gen_reset ex_session_no_eviction 11), [Call_evict 1])"
  by (simp_all add: evict_file_reconcile_def evict_file_switch_close wt_page_is_modified_def
      wt_ref_is_root_def write_gen_reset_def ex_defs)

lemma ex_walk_fails_first:
  "fst (wt_evict_file_exclusive_on ex_env_walk_fails ex_session) = 0"
  "wt_tree_walk ex_env_walk_fails (wt_txn_update_oldest ex_env_walk_fails
       (if btree_no_eviction ex_session then ex_session
        else snd (wt_evict_file_exclusive_on ex_env_walk_fails ex_session)))
     None [WT_READ_CACHE, WT_READ_NO_EVICT] = (7, None, ex_session_no_eviction)"
  by (simp_all add: ex_defs)

text \<open>
  C6. When the first call of the walk fails, and when any step of the turn of a visited
  page fails (the reconciliation, the advance of the walk, or the switch statement: the
  eviction, the busy stop, the illegal value), the function returns the error of that
  step, the first one met. Before it returns it releases the ref the cursor points at,
  when there is one (the current ref when the reconciliation failed, the next ref after
  the walk was advanced), and it switches ordinary eviction on again exactly when eviction
  was enabled at entry; it makes no other call after the failed step. Only when all three
  steps of the turn returned 0 does the run go on to the next page. The steps pass on what
  the called function returns: reconciliation, eviction and the illegal-value report
  return its value, the busy stop returns \<^verbatim>\<open>EBUSY\<close>.
\<close>

theorem error_cleanup:
  "((btree_no_eviction s0 \<or> fst (wt_evict_file_exclusive_on env s0) = 0) \<and>
    wt_tree_walk env (wt_txn_update_oldest env
       (if btree_no_eviction s0 then s0 else snd (wt_evict_file_exclusive_on env s0)))
       None [WT_READ_CACHE, WT_READ_NO_EVICT] = (rw, nrw, sw) \<and> rw \<noteq> 0 \<longrightarrow>
      wt_evict_file env syncop s0 =
        Some (rw,
          (if btree_no_eviction s0 then (\<lambda>s. s) else wt_evict_file_exclusive_off env)
            (case nrw of None \<Rightarrow> sw
             | Some k \<Rightarrow> snd (wt_page_release env sw k [WT_READ_NO_EVICT])),
          (if btree_no_eviction s0 then [] else [Call_exclusive_on]) @
            [Call_txn_update_oldest, Call_tree_walk None] @
            (case nrw of None \<Rightarrow> [] | Some k \<Rightarrow> [Call_page_release k]) @
            (if btree_no_eviction s0 then [] else [Call_exclusive_off])))
   \<and> (evict_file_visit env syncop s0 n = Some (ref, s, cs) \<and>
       evict_file_reconcile env syncop ref (ref_page (refs s ref)) s = (r1, s1, cs1) \<and>
       wt_tree_walk env s1 (Some ref) [WT_READ_CACHE, WT_READ_NO_EVICT] = (r2, nr, s2) \<and>
       evict_file_switch env syncop ref (ref_page (refs s ref)) s2 = (r3, s3, cs3) \<longrightarrow>
        wt_evict_file env syncop s0 =
          (if r1 \<noteq> 0 then
             Some (r1,
               (if btree_no_eviction s0 then (\<lambda>s. s) else wt_evict_file_exclusive_off env)
                 (snd (wt_page_release env s1 ref [WT_READ_NO_EVICT])),
               cs @ cs1 @ Call_page_release ref #
                 (if btree_no_eviction s0 then [] else [Call_exclusive_off]))
           else if r2 \<noteq> 0 then
             Some (r2,
               (if btree_no_eviction s0 then (\<lambda>s. s) else wt_evict_file_exclusive_off env)
                 (case nr of None \<Rightarrow> s2
                  | Some k \<Rightarrow> snd (wt_page_release env s2 k [WT_READ_NO_EVICT])),
               cs @ cs1 @ Call_tree_walk (Some ref) #
                 (case nr of None \<Rightarrow> [] | Some k \<Rightarrow> [Call_page_release k]) @
                 (if btree_no_eviction s0 then [] else [Call_exclusive_off]))
           else if r3 \<noteq> 0 then
             Some (r3,
               (if btree_no_eviction s0 then (\<lambda>s. s) else wt_evict_file_exclusive_off env)
                 (case nr of None \<Rightarrow> s3
                  | Some k \<Rightarrow> snd (wt_page_release env s3 k [WT_READ_NO_EVICT])),
               cs @ cs1 @ Call_tree_walk (Some ref) # cs3 @
                 (case nr of None \<Rightarrow> [] | Some k \<Rightarrow> [Call_page_release k]) @
                 (if btree_no_eviction s0 then [] else [Call_exclusive_off]))
           else map_option (evict_file_finish env (\<not> btree_no_eviction s0))
                  (evict_file_walk env syncop nr s3 (cs @ cs1 @ Call_tree_walk (Some ref) # cs3))))
   \<and> (wt_page_is_modified s page \<longrightarrow>
        evict_file_reconcile env WT_SYNC_CLOSE ref page s =
          (fst (wt_reconcile env s ref [WT_EVICTING]), snd (wt_reconcile env s ref [WT_EVICTING]),
           [Call_reconcile ref [WT_EVICTING]]))
   \<and> (wt_ref_is_root s ref \<or> modify (pages s page) = None \<or>
         \<not> pm_rec_empty (the (modify (pages s page))) \<longrightarrow>
        evict_file_switch env WT_SYNC_CLOSE ref page s =
          (fst (wt_evict env s ref True), snd (wt_evict env s ref True), [Call_evict ref]))
   \<and> evict_file_switch env WT_SYNC_OTHER ref page s =
        (fst (wt_illegal_value env s), snd (wt_illegal_value env s), [Call_illegal_value])
   \<and> (evict_file_clean env page s = (sc, csc) \<and> modify (pages sc page) = Some m \<and>
       \<not> wt_txn_visible_all env sc (rec_max_txn m) \<longrightarrow>
        evict_file_switch env WT_SYNC_DISCARD ref page s =
          (EBUSY, sc, csc @ [Call_txn_visible_all (rec_max_txn m)]) \<and> EBUSY \<noteq> 0)"
proof -
  have turn: "wt_evict_file env syncop s0 =
          (if r1 \<noteq> 0 then
             Some (r1,
               (if btree_no_eviction s0 then (\<lambda>s. s) else wt_evict_file_exclusive_off env)
                 (snd (wt_page_release env s1 ref [WT_READ_NO_EVICT])),
               cs @ cs1 @ Call_page_release ref #
                 (if btree_no_eviction s0 then [] else [Call_exclusive_off]))
           else if r2 \<noteq> 0 then
             Some (r2,
               (if btree_no_eviction s0 then (\<lambda>s. s) else wt_evict_file_exclusive_off env)
                 (case nr of None \<Rightarrow> s2
                  | Some k \<Rightarrow> snd (wt_page_release env s2 k [WT_READ_NO_EVICT])),
               cs @ cs1 @ Call_tree_walk (Some ref) #
                 (case nr of None \<Rightarrow> [] | Some k \<Rightarrow> [Call_page_release k]) @
                 (if btree_no_eviction s0 then [] else [Call_exclusive_off]))
           else if r3 \<noteq> 0 then
             Some (r3,
               (if btree_no_eviction s0 then (\<lambda>s. s) else wt_evict_file_exclusive_off env)
                 (case nr of None \<Rightarrow> s3
                  | Some k \<Rightarrow> snd (wt_page_release env s3 k [WT_READ_NO_EVICT])),
               cs @ cs1 @ Call_tree_walk (Some ref) # cs3 @
                 (case nr of None \<Rightarrow> [] | Some k \<Rightarrow> [Call_page_release k]) @
                 (if btree_no_eviction s0 then [] else [Call_exclusive_off]))
           else map_option (evict_file_finish env (\<not> btree_no_eviction s0))
                  (evict_file_walk env syncop nr s3 (cs @ cs1 @ Call_tree_walk (Some ref) # cs3)))"
    if visit: "evict_file_visit env syncop s0 n = Some (ref, s, cs)"
      and steps: "evict_file_reconcile env syncop ref (ref_page (refs s ref)) s = (r1, s1, cs1)"
        "wt_tree_walk env s1 (Some ref) [WT_READ_CACHE, WT_READ_NO_EVICT] = (r2, nr, s2)"
        "evict_file_switch env syncop ref (ref_page (refs s ref)) s2 = (r3, s3, cs3)"
  proof -
    have page: "evict_file_page env syncop ref s =
        (if r1 \<noteq> 0 then Goto_err r1 (Some ref) s1 cs1
         else if r2 \<noteq> 0 then Goto_err r2 nr s2 (cs1 @ [Call_tree_walk (Some ref)])
         else if r3 \<noteq> 0 then Goto_err r3 nr s3 (cs1 @ Call_tree_walk (Some ref) # cs3)
         else Continue nr s3 (cs1 @ Call_tree_walk (Some ref) # cs3))"
      using steps by (simp add: evict_file_page_def)
    show ?thesis
    proof (cases "r1 \<noteq> 0")
      case True
      with page have "evict_file_page env syncop ref s = Goto_err r1 (Some ref) s1 cs1" by simp
      from wt_evict_file_visit_err [OF visit this] True show ?thesis by simp
    next
      case r1: False
      show ?thesis
      proof (cases "r2 \<noteq> 0")
        case True
        with page r1 have "evict_file_page env syncop ref s =
            Goto_err r2 nr s2 (cs1 @ [Call_tree_walk (Some ref)])" by simp
        from wt_evict_file_visit_err [OF visit this] True r1 show ?thesis by simp
      next
        case r2: False
        show ?thesis
        proof (cases "r3 \<noteq> 0")
          case True
          with page r1 r2 have "evict_file_page env syncop ref s =
              Goto_err r3 nr s3 (cs1 @ Call_tree_walk (Some ref) # cs3)" by simp
          from wt_evict_file_visit_err [OF visit this] True r1 r2 show ?thesis by simp
        next
          case False
          with page r1 r2 have "evict_file_page env syncop ref s =
              Continue nr s3 (cs1 @ Call_tree_walk (Some ref) # cs3)" by simp
          from wt_evict_file_visit_continue [OF visit this] False r1 r2 show ?thesis by simp
        qed
      qed
    qed
  qed
  have rec: "evict_file_reconcile env WT_SYNC_CLOSE ref page s =
      (fst (wt_reconcile env s ref [WT_EVICTING]), snd (wt_reconcile env s ref [WT_EVICTING]),
       [Call_reconcile ref [WT_EVICTING]])" if "wt_page_is_modified s page"
    using that by (simp add: evict_file_reconcile_def split: prod.splits)
  have evict: "evict_file_switch env WT_SYNC_CLOSE ref page s =
      (fst (wt_evict env s ref True), snd (wt_evict env s ref True), [Call_evict ref])"
    if "wt_ref_is_root s ref \<or> modify (pages s page) = None \<or>
         \<not> pm_rec_empty (the (modify (pages s page)))"
    using that by (simp add: evict_file_switch_close)
  have busy: "evict_file_switch env WT_SYNC_DISCARD ref page s =
      (EBUSY, sc, csc @ [Call_txn_visible_all (rec_max_txn m)]) \<and> EBUSY \<noteq> 0"
    if "evict_file_clean env page s = (sc, csc)" "modify (pages sc page) = Some m"
      "\<not> wt_txn_visible_all env sc (rec_max_txn m)"
    using that by (simp add: evict_file_switch_discard EBUSY_nonzero)
  from wt_evict_file_walk_err [of s0 env rw nrw sw syncop] turn rec evict busy
    evict_file_switch_other [of env ref page s]
  show ?thesis by blast
qed

theorem error_cleanup_witness:
  "map_option (\<lambda>(r, s, cs). (r, cs)) (wt_evict_file ex_env_walk_fails WT_SYNC_CLOSE ex_session) =
     Some (7, [Call_exclusive_on, Call_txn_update_oldest, Call_tree_walk None,
               Call_exclusive_off]) \<and>
   map_option (\<lambda>(r, s, cs). (r, cs)) (wt_evict_file ex_env_evict_fails WT_SYNC_CLOSE ex_session) =
     Some (16, [Call_exclusive_on, Call_txn_update_oldest, Call_tree_walk None,
                Call_reconcile 1 [WT_EVICTING], Call_tree_walk (Some 1), Call_evict 1,
                Call_page_release 2, Call_exclusive_off]) \<and>
   evict_file_switch ex_env WT_SYNC_DISCARD 1 11 ex_session_no_eviction =
     (EBUSY, ex_dirty_decr (write_gen_reset ex_session_no_eviction 11),
      [Call_cache_dirty_decr 11, Call_txn_visible_all 7])"
proof -
  have en: "\<not> btree_no_eviction ex_session"
    by (simp add: ex_defs)
  from error_cleanup
      [where env = ex_env_walk_fails and ?s0.0 = ex_session and rw = 7 and nrw = None
        and sw = ex_session_no_eviction and syncop = WT_SYNC_CLOSE,
        THEN conjunct1, rule_format]
    ex_walk_fails_first en
  have a: "map_option (\<lambda>(r, s, cs). (r, cs))
      (wt_evict_file ex_env_walk_fails WT_SYNC_CLOSE ex_session) =
     Some (7, [Call_exclusive_on, Call_txn_update_oldest, Call_tree_walk None,
               Call_exclusive_off])"
    by simp
  from error_cleanup
      [where env = ex_env_evict_fails and ?s0.0 = ex_session and syncop = WT_SYNC_CLOSE
        and n = 0 and ref = 1 and s = ex_session_no_eviction
        and cs = "[Call_exclusive_on, Call_txn_update_oldest, Call_tree_walk None]"
        and ?r1.0 = 0 and ?s1.0 = "ex_dirty_decr (write_gen_reset ex_session_no_eviction 11)"
        and ?cs1.0 = "[Call_reconcile 1 [WT_EVICTING]]"
        and ?r2.0 = 0 and nr = "Some 2"
        and ?s2.0 = "ex_dirty_decr (write_gen_reset ex_session_no_eviction 11)"
        and ?r3.0 = 16 and ?s3.0 = "ex_dirty_decr (write_gen_reset ex_session_no_eviction 11)"
        and ?cs3.0 = "[Call_evict 1]",
        THEN conjunct2, THEN conjunct1, rule_format]
    ex_evict_fails_visit_first [of WT_SYNC_CLOSE] ex_evict_fails_steps en
  have b: "map_option (\<lambda>(r, s, cs). (r, cs))
      (wt_evict_file ex_env_evict_fails WT_SYNC_CLOSE ex_session) =
     Some (16, [Call_exclusive_on, Call_txn_update_oldest, Call_tree_walk None,
                Call_reconcile 1 [WT_EVICTING], Call_tree_walk (Some 1), Call_evict 1,
                Call_page_release 2, Call_exclusive_off])"
    by simp
  from error_cleanup
      [where env = ex_env and ref = 1 and page = 11 and s = ex_session_no_eviction
        and sc = "ex_dirty_decr (write_gen_reset ex_session_no_eviction 11)"
        and csc = "[Call_cache_dirty_decr 11]"
        and m = "\<lparr>write_gen = 0, rec_max_txn = 7, pm_rec_empty = False\<rparr>",
        THEN conjunct2, THEN conjunct2, THEN conjunct2, THEN conjunct2, THEN conjunct2,
        rule_format]
    ex_no_eviction_clean_11 ex_no_eviction_modify_11 ex_no_eviction_not_visible_11
  have c: "evict_file_switch ex_env WT_SYNC_DISCARD 1 11 ex_session_no_eviction =
     (EBUSY, ex_dirty_decr (write_gen_reset ex_session_no_eviction 11),
      [Call_cache_dirty_decr 11, Call_txn_visible_all 7])"
    by simp
  from a b c show ?thesis by blast
qed

subsection \<open>The dirty accounting in the discard modes\<close>

lemma ex_no_eviction_modified_11: "wt_page_is_modified ex_session_no_eviction 11"
  by (simp add: wt_page_is_modified_def ex_defs)

text \<open>
  C8, as stated, fails: the page is cleaned in the switch statement, after the advance of
  the walk, and an error of that advance ends the pass first. With a walk that fails at
  every advance, the run on the example tree visits ref 1, whose page 11 is modified, and
  in both discard modes makes no decrement at all; the page keeps its write generation 3
  and the count of dirty pages stays 1.
\<close>

theorem discard_clean_walk_error_counterexample:
  "map_option fst (evict_file_visit ex_env_advance_fails WT_SYNC_DISCARD_FORCE ex_session 0) =
     Some 1 \<and>
   ref_page (refs ex_session 1) = 11 \<and>
   wt_page_is_modified
     (fst (snd (the (evict_file_visit ex_env_advance_fails WT_SYNC_DISCARD_FORCE ex_session 0)))) 11 \<and>
   wt_evict_file ex_env_advance_fails WT_SYNC_DISCARD_FORCE ex_session \<noteq> None \<and>
   filter is_dirty_decr
     (snd (snd (the (wt_evict_file ex_env_advance_fails WT_SYNC_DISCARD_FORCE ex_session)))) = [] \<and>
   map_option write_gen (modify (pages
     (fst (snd (the (wt_evict_file ex_env_advance_fails WT_SYNC_DISCARD_FORCE ex_session)))) 11)) =
     Some 3 \<and>
   pages_dirty (ext
     (fst (snd (the (wt_evict_file ex_env_advance_fails WT_SYNC_DISCARD_FORCE ex_session))))) = 1 \<and>
   wt_evict_file ex_env_advance_fails WT_SYNC_DISCARD ex_session \<noteq> None \<and>
   filter is_dirty_decr
     (snd (snd (the (wt_evict_file ex_env_advance_fails WT_SYNC_DISCARD ex_session)))) = []"
  by code_simp

text \<open>
  C8, amended. In the modes \<^verbatim>\<open>WT_SYNC_DISCARD\<close> and \<^verbatim>\<open>WT_SYNC_DISCARD_FORCE\<close>, take a
  visited page whose turn reaches the switch statement (the advance of the walk returned 0,
  leaving state \<open>s2\<close>). When the page is modified in \<open>s2\<close> the turn sets its write
  generation to zero and then calls \<^verbatim>\<open>__wt_cache_dirty_decr\<close> once, on the state with the
  write generation reset; otherwise it does neither. The rest of the turn, and of the run
  of the function, works on the state \<open>s3\<close> this leaves, and no other call of the turn
  is a decrement. After the reset the page is no longer modified, so cleaning it again
  would decrement nothing.
\<close>

theorem discard_decrements_once:
  assumes "syncop = WT_SYNC_DISCARD \<or> syncop = WT_SYNC_DISCARD_FORCE"
      and "wt_tree_walk env s (Some ref) [WT_READ_CACHE, WT_READ_NO_EVICT] = (0, nr, s2)"
      and "page = ref_page (refs s ref)"
      and "s3 = (if wt_page_is_modified s2 page
                 then wt_cache_dirty_decr env (write_gen_reset s2 page) page else s2)"
      and "cs3 = (if wt_page_is_modified s2 page then [Call_cache_dirty_decr page] else [])"
  shows "evict_file_page env syncop ref s =
           (if fst (evict_file_too_recent env syncop page s3)
            then Goto_err EBUSY nr s3
                   (Call_tree_walk (Some ref) # cs3 @ snd (evict_file_too_recent env syncop page s3))
            else Continue nr (fst (evict_file_discard env syncop ref s3))
                   (Call_tree_walk (Some ref) # cs3 @
                      snd (evict_file_too_recent env syncop page s3) @
                      snd (evict_file_discard env syncop ref s3)))
         \<and> filter is_dirty_decr (flow_calls (evict_file_page env syncop ref s)) = cs3
         \<and> (evict_file_visit env syncop s0 n = Some (ref, s, cs) \<longrightarrow>
              wt_evict_file env syncop s0 =
                (if fst (evict_file_too_recent env syncop page s3)
                 then Some (EBUSY,
                        (if btree_no_eviction s0 then (\<lambda>s. s) else wt_evict_file_exclusive_off env)
                          (case nr of None \<Rightarrow> s3
                           | Some k \<Rightarrow> snd (wt_page_release env s3 k [WT_READ_NO_EVICT])),
                        cs @ Call_tree_walk (Some ref) # cs3 @
                          snd (evict_file_too_recent env syncop page s3) @
                          (case nr of None \<Rightarrow> [] | Some k \<Rightarrow> [Call_page_release k]) @
                          (if btree_no_eviction s0 then [] else [Call_exclusive_off]))
                 else map_option (evict_file_finish env (\<not> btree_no_eviction s0))
                        (evict_file_walk env syncop nr (fst (evict_file_discard env syncop ref s3))
                           (cs @ Call_tree_walk (Some ref) # cs3 @
                              snd (evict_file_too_recent env syncop page s3) @
                              snd (evict_file_discard env syncop ref s3)))))
         \<and> pages (write_gen_reset s2 page) =
             (pages s2)(page := (pages s2 page)
                \<lparr>modify := map_option (\<lambda>m. m\<lparr>write_gen := 0\<rparr>) (modify (pages s2 page))\<rparr>)
         \<and> (wt_page_is_modified s2 page \<longrightarrow>
              map_option write_gen (modify (pages (write_gen_reset s2 page) page)) = Some 0)
         \<and> \<not> wt_page_is_modified (write_gen_reset s2 page) page
         \<and> evict_file_clean env page (write_gen_reset s2 page) = (write_gen_reset s2 page, [])"
proof -
  from assms(1) have mode: "syncop \<noteq> WT_SYNC_CLOSE" by auto
  have clean: "evict_file_clean env page s2 = (s3, cs3)"
    by (simp add: evict_file_clean_def assms(4,5))
  have sw: "evict_file_switch env syncop ref page s2 =
      (if fst (evict_file_too_recent env syncop page s3)
       then (EBUSY, s3, cs3 @ snd (evict_file_too_recent env syncop page s3))
       else (0, fst (evict_file_discard env syncop ref s3),
             cs3 @ snd (evict_file_too_recent env syncop page s3) @
               snd (evict_file_discard env syncop ref s3)))"
    using assms(1) clean by (auto simp: evict_file_switch_def split: prod.splits)
  have page: "evict_file_page env syncop ref s =
      (if fst (evict_file_too_recent env syncop page s3)
       then Goto_err EBUSY nr s3
              (Call_tree_walk (Some ref) # cs3 @ snd (evict_file_too_recent env syncop page s3))
       else Continue nr (fst (evict_file_discard env syncop ref s3))
              (Call_tree_walk (Some ref) # cs3 @
                 snd (evict_file_too_recent env syncop page s3) @
                 snd (evict_file_discard env syncop ref s3)))"
    using assms(2) mode sw EBUSY_nonzero unfolding assms(3)
    by (simp add: evict_file_page_def evict_file_reconcile_discard)
  have recent: "filter is_dirty_decr (snd (evict_file_too_recent env syncop page s3)) = []"
    by (simp add: evict_file_too_recent_def split: option.splits)
  have disc: "filter is_dirty_decr (snd (evict_file_discard env syncop ref s3)) = []"
    by (simp add: evict_file_discard_def Let_def)
  have cs3: "filter is_dirty_decr cs3 = cs3"
    by (simp add: assms(5))
  have once: "filter is_dirty_decr (flow_calls (evict_file_page env syncop ref s)) = cs3"
    by (simp add: page recent disc cs3)
  have whole: "wt_evict_file env syncop s0 =
      (if fst (evict_file_too_recent env syncop page s3)
       then Some (EBUSY,
              (if btree_no_eviction s0 then (\<lambda>s. s) else wt_evict_file_exclusive_off env)
                (case nr of None \<Rightarrow> s3
                 | Some k \<Rightarrow> snd (wt_page_release env s3 k [WT_READ_NO_EVICT])),
              cs @ Call_tree_walk (Some ref) # cs3 @
                snd (evict_file_too_recent env syncop page s3) @
                (case nr of None \<Rightarrow> [] | Some k \<Rightarrow> [Call_page_release k]) @
                (if btree_no_eviction s0 then [] else [Call_exclusive_off]))
       else map_option (evict_file_finish env (\<not> btree_no_eviction s0))
              (evict_file_walk env syncop nr (fst (evict_file_discard env syncop ref s3))
                 (cs @ Call_tree_walk (Some ref) # cs3 @
                    snd (evict_file_too_recent env syncop page s3) @
                    snd (evict_file_discard env syncop ref s3))))"
    if visit: "evict_file_visit env syncop s0 n = Some (ref, s, cs)"
  proof (cases "fst (evict_file_too_recent env syncop page s3)")
    case True
    with page have "evict_file_page env syncop ref s = Goto_err EBUSY nr s3
        (Call_tree_walk (Some ref) # cs3 @ snd (evict_file_too_recent env syncop page s3))"
      by simp
    from wt_evict_file_visit_err [OF visit this] True show ?thesis by simp
  next
    case False
    with page have "evict_file_page env syncop ref s =
        Continue nr (fst (evict_file_discard env syncop ref s3))
          (Call_tree_walk (Some ref) # cs3 @ snd (evict_file_too_recent env syncop page s3) @
             snd (evict_file_discard env syncop ref s3))"
      by simp
    from wt_evict_file_visit_continue [OF visit this] False show ?thesis by simp
  qed
  have reset: "pages (write_gen_reset s2 page) =
      (pages s2)(page := (pages s2 page)
         \<lparr>modify := map_option (\<lambda>m. m\<lparr>write_gen := 0\<rparr>) (modify (pages s2 page))\<rparr>)"
    by (simp add: write_gen_reset_def)
  have again: "evict_file_clean env page (write_gen_reset s2 page) = (write_gen_reset s2 page, [])"
    by (simp add: evict_file_clean_def write_gen_reset_clean)
  from page once whole reset again write_gen_reset_zero [of s2 page]
    write_gen_reset_clean [of s2 page]
  show ?thesis by blast
qed

theorem discard_decrements_once_witness:
  "evict_file_page ex_env WT_SYNC_DISCARD_FORCE 1 ex_session_no_eviction =
     Continue (Some 2)
       ((ex_out ((ex_dirty_decr (write_gen_reset ex_session_no_eviction 11))
           \<lparr>session_discard_force := True\<rparr>) 1)\<lparr>session_discard_force := False\<rparr>)
       [Call_tree_walk (Some 1), Call_cache_dirty_decr 11, Call_rec_page_clean_update 1 True] \<and>
   filter is_dirty_decr
     (flow_calls (evict_file_page ex_env WT_SYNC_DISCARD_FORCE 1 ex_session_no_eviction)) =
     [Call_cache_dirty_decr 11] \<and>
   map_option (\<lambda>(r, s, cs). (r, cs)) (wt_evict_file ex_env WT_SYNC_DISCARD ex_session) =
     Some (EBUSY,
       [Call_exclusive_on, Call_txn_update_oldest, Call_tree_walk None, Call_tree_walk (Some 1),
        Call_cache_dirty_decr 11, Call_txn_visible_all 7, Call_page_release 2,
        Call_exclusive_off]) \<and>
   map_option write_gen (modify (pages (write_gen_reset ex_session_no_eviction 11) 11)) = Some 0 \<and>
   evict_file_clean ex_env 11 (write_gen_reset ex_session_no_eviction 11) =
     (write_gen_reset ex_session_no_eviction 11, [])"
proof -
  have page: "11 = ref_page (refs ex_session_no_eviction 1)"
    by (simp add: ex_defs)
  have s3: "ex_dirty_decr (write_gen_reset ex_session_no_eviction 11) =
      (if wt_page_is_modified ex_session_no_eviction 11
       then wt_cache_dirty_decr ex_env (write_gen_reset ex_session_no_eviction 11) 11
       else ex_session_no_eviction)"
    by (simp add: ex_no_eviction_modified_11) (simp add: ex_env_def)
  have cs3: "[Call_cache_dirty_decr 11] =
      (if wt_page_is_modified ex_session_no_eviction 11 then [Call_cache_dirty_decr 11] else [])"
    by (simp add: ex_no_eviction_modified_11)
  have en: "\<not> btree_no_eviction ex_session"
    by (simp add: ex_defs)
  have upd: "wt_rec_page_clean_update ex_env = ex_out"
    by (simp add: ex_env_def)
  have rel: "wt_page_release ex_env s r fl = (0, s)" for s r fl
    by (simp add: ex_env_def)
  have recent_force: "evict_file_too_recent ex_env WT_SYNC_DISCARD_FORCE 11
      (ex_dirty_decr (write_gen_reset ex_session_no_eviction 11)) = (False, [])"
    by (simp add: evict_file_too_recent_def)
  have recent: "evict_file_too_recent ex_env WT_SYNC_DISCARD 11
      (ex_dirty_decr (write_gen_reset ex_session_no_eviction 11)) =
      (True, [Call_txn_visible_all 7])"
    using ex_no_eviction_not_visible_11
    by (simp add: evict_file_too_recent_def ex_no_eviction_modify_11)
  have disc: "evict_file_discard ex_env WT_SYNC_DISCARD_FORCE 1
      (ex_dirty_decr (write_gen_reset ex_session_no_eviction 11)) =
      ((ex_out ((ex_dirty_decr (write_gen_reset ex_session_no_eviction 11))
           \<lparr>session_discard_force := True\<rparr>) 1)\<lparr>session_discard_force := False\<rparr>,
       [Call_rec_page_clean_update 1 True])"
    by (simp add: evict_file_discard_def upd)
  note force = discard_decrements_once
      [OF disjI2 [OF refl] ex_no_eviction_walk_1 page s3 cs3,
        where ?s0.0 = ex_session and n = 0
          and cs = "[Call_exclusive_on, Call_txn_update_oldest, Call_tree_walk None]"]
  note plain = discard_decrements_once
      [OF disjI1 [OF refl] ex_no_eviction_walk_1 page s3 cs3,
        where ?s0.0 = ex_session and n = 0
          and cs = "[Call_exclusive_on, Call_txn_update_oldest, Call_tree_walk None]"]
  from force [THEN conjunct1] recent_force disc
  have a: "evict_file_page ex_env WT_SYNC_DISCARD_FORCE 1 ex_session_no_eviction =
     Continue (Some 2)
       ((ex_out ((ex_dirty_decr (write_gen_reset ex_session_no_eviction 11))
           \<lparr>session_discard_force := True\<rparr>) 1)\<lparr>session_discard_force := False\<rparr>)
       [Call_tree_walk (Some 1), Call_cache_dirty_decr 11, Call_rec_page_clean_update 1 True]"
    by simp
  note b = force [THEN conjunct2, THEN conjunct1]
  from plain [THEN conjunct2, THEN conjunct2, THEN conjunct1, rule_format, OF ex_visit_first]
    recent en
  have c: "map_option (\<lambda>(r, s, cs). (r, cs)) (wt_evict_file ex_env WT_SYNC_DISCARD ex_session) =
     Some (EBUSY,
       [Call_exclusive_on, Call_txn_update_oldest, Call_tree_walk None, Call_tree_walk (Some 1),
        Call_cache_dirty_decr 11, Call_txn_visible_all 7, Call_page_release 2,
        Call_exclusive_off])"
    by simp
  from force [THEN conjunct2, THEN conjunct2, THEN conjunct2, THEN conjunct2, THEN conjunct1]
    ex_no_eviction_modified_11
  have d: "map_option write_gen
      (modify (pages (write_gen_reset ex_session_no_eviction 11) 11)) = Some 0"
    by blast
  note e = force [THEN conjunct2, THEN conjunct2, THEN conjunct2, THEN conjunct2,
      THEN conjunct2, THEN conjunct2]
  from a b c d e show ?thesis by blast
qed

end
